theory Spec2Isabelle
  imports Main "HOL-Library.Sublist" "HOL-Library.AList"
begin

section \<open>JavaScript strings\<close>

text \<open>
  A JavaScript string is modelled by its UTF-8 encoding, a \<^typ>\<open>string\<close> (a list of bytes),
  and a file holds such a list. All tokens the generator searches for are ASCII, so searching
  bytes and searching UTF-16 code units agree. A value that may be \<^verbatim>\<open>undefined\<close> is a
  \<^typ>\<open>string option\<close>.
\<close>

text \<open>\<^verbatim>\<open>s.includes(needle)\<close>: the needle occurs somewhere in \<open>s\<close> as a contiguous substring.\<close>

fun str_includes :: "string \<Rightarrow> string \<Rightarrow> bool" where
  "str_includes [] needle = (needle = [])"
| "str_includes (c # s) needle = (prefix needle (c # s) \<or> str_includes s needle)"

text \<open>What a template literal prints for a value that may be \<^verbatim>\<open>undefined\<close>.\<close>

definition interpolate :: "string option \<Rightarrow> string" where
  "interpolate v = (case v of None \<Rightarrow> ''undefined'' | Some s \<Rightarrow> s)"

text \<open>Truthiness of an optional string: \<^verbatim>\<open>undefined\<close> and the empty string are falsy.\<close>

definition truthy :: "string option \<Rightarrow> bool" where
  "truthy v = (case v of None \<Rightarrow> False | Some s \<Rightarrow> s \<noteq> [])"

text \<open>
  \<^verbatim>\<open>s.trim()\<close>, on the ASCII white space characters (tab, line feed, vertical tab, form feed,
  carriage return, space).
\<close>

definition isWhiteSpace :: "char \<Rightarrow> bool" where
  "isWhiteSpace c = (c = CHR 0x09 \<or> c = CHR 0x0A \<or> c = CHR 0x0B \<or> c = CHR 0x0C
                     \<or> c = CHR 0x0D \<or> c = CHR 0x20)"

definition trim :: "string \<Rightarrow> string" where
  "trim s = rev (dropWhile isWhiteSpace (rev (dropWhile isWhiteSpace s)))"

text \<open>
  \<^verbatim>\<open>content.replace(/token/g, replacement)\<close> for a regular expression that matches exactly the
  literal \<open>token\<close> and has no capture group. The replacement is a string, so JavaScript expands
  its dollar patterns: \<^verbatim>\<open>$$\<close> is a dollar sign, \<^verbatim>\<open>$&\<close> the matched text, \<^verbatim>\<open>$`\<close> the text
  before the match and \<^verbatim>\<open>$'\<close> the text after it; with no capture group every other use of
  the dollar sign stays as it is. Matching goes from left to right and resumes after each match.
\<close>

fun getSubstitution :: "string \<Rightarrow> string \<Rightarrow> string \<Rightarrow> string \<Rightarrow> string" where
  "getSubstitution matched before after [] = []"
| "getSubstitution matched before after [c] = [c]"
| "getSubstitution matched before after (c # d # r) =
     (if c = CHR ''$'' \<and> d = CHR ''$'' then CHR ''$'' # getSubstitution matched before after r
      else if c = CHR ''$'' \<and> d = CHR ''&'' then matched @ getSubstitution matched before after r
      else if c = CHR ''$'' \<and> d = CHR 0x60 then before @ getSubstitution matched before after r
      else if c = CHR ''$'' \<and> d = CHR 0x27 then after @ getSubstitution matched before after r
      else c # getSubstitution matched before after (d # r))"

fun replaceFrom :: "string \<Rightarrow> string \<Rightarrow> string \<Rightarrow> string \<Rightarrow> string" where
  "replaceFrom token replacement before [] = []"
| "replaceFrom token replacement before (c # s) =
     (if token \<noteq> [] \<and> prefix token (c # s)
      then getSubstitution token before (drop (length token) (c # s)) replacement
           @ replaceFrom token replacement (before @ token) (drop (length token) (c # s))
      else c # replaceFrom token replacement (before @ [c]) s)"

definition replaceAll :: "string \<Rightarrow> string \<Rightarrow> string \<Rightarrow> string" where
  "replaceAll token replacement content0 = replaceFrom token replacement [] content0"

text \<open>
  Reading a file with the encoding \<^verbatim>\<open>'utf-8'\<close> decodes its bytes, and bytes that are not
  UTF-8 are not kept: the decoder puts U+FFFD in place of each ill-formed part. On the
  encoding of the string that is the function \<open>utf8Text\<close> on bytes: a well-formed sequence
  stays, and the three bytes EF BF BD of U+FFFD stand for each ill-formed part. \<open>utf8Decode\<close>
  is the decoder of the Encoding Standard, which Node.js follows, with its state: the number
  of continuation bytes still needed, the bounds of the next one, and the bytes of the
  sequence seen so far. A byte outside the bounds ends the sequence as ill-formed and is
  decoded again on its own; a sequence cut short by the end of the file is ill-formed.
  Nothing is removed at the start of the text (a byte order mark is kept).
\<close>

definition replacementCharacter :: string where
  "replacementCharacter = [CHR 0xEF, CHR 0xBF, CHR 0xBD]"

fun utf8Decode :: "nat \<Rightarrow> nat \<Rightarrow> nat \<Rightarrow> string \<Rightarrow> string \<Rightarrow> string" where
  "utf8Decode needed lower upper seen [] = (if needed = 0 then [] else replacementCharacter)"
| "utf8Decode needed lower upper seen (b # bs) =
     (if needed = 0 then
        (if (of_char b :: nat) \<le> 0x7F then b # utf8Decode 0 0x80 0xBF [] bs
         else if 0xC2 \<le> (of_char b :: nat) \<and> (of_char b :: nat) \<le> 0xDF
           then utf8Decode 1 0x80 0xBF [b] bs
         else if 0xE0 \<le> (of_char b :: nat) \<and> (of_char b :: nat) \<le> 0xEF
           then utf8Decode 2 (if (of_char b :: nat) = 0xE0 then 0xA0 else 0x80)
                             (if (of_char b :: nat) = 0xED then 0x9F else 0xBF) [b] bs
         else if 0xF0 \<le> (of_char b :: nat) \<and> (of_char b :: nat) \<le> 0xF4
           then utf8Decode 3 (if (of_char b :: nat) = 0xF0 then 0x90 else 0x80)
                             (if (of_char b :: nat) = 0xF4 then 0x8F else 0xBF) [b] bs
         else replacementCharacter @ utf8Decode 0 0x80 0xBF [] bs)
      else if (of_char b :: nat) < lower \<or> upper < (of_char b :: nat)
        then replacementCharacter @ utf8Decode 0 0x80 0xBF [] (b # bs)
      else if needed = 1 then seen @ [b] @ utf8Decode 0 0x80 0xBF [] bs
      else utf8Decode (needed - 1) 0x80 0xBF (seen @ [b]) bs)"

definition utf8Text :: "string \<Rightarrow> string" where
  "utf8Text bytes = utf8Decode 0 0x80 0xBF [] bytes"

text \<open>
  Well-formed UTF-8, as the Unicode Standard defines it (table 3-7): one byte up to 7F; a
  lead byte C2 to DF with one continuation byte; E0 to EF with two; F0 to F4 with three; a
  continuation byte is 80 to BF, the first one narrowed after E0 (from A0), ED (to 9F), F0
  (from 90) and F4 (to 8F). This is the text that reading and writing back leaves as it is.
\<close>

definition isAscii :: "char \<Rightarrow> bool" where
  "isAscii c = ((of_char c :: nat) \<le> 0x7F)"

definition inRange :: "nat \<Rightarrow> nat \<Rightarrow> char \<Rightarrow> bool" where
  "inRange lower upper b = (lower \<le> (of_char b :: nat) \<and> (of_char b :: nat) \<le> upper)"

fun validUtf8 :: "string \<Rightarrow> bool" where
  "validUtf8 [] = True"
| "validUtf8 (b # bs) =
     (if inRange 0x00 0x7F b then validUtf8 bs
      else if inRange 0xC2 0xDF b
        then (case bs of
                c1 # r \<Rightarrow> inRange 0x80 0xBF c1 \<and> validUtf8 r
              | _ \<Rightarrow> False)
      else if inRange 0xE0 0xEF b
        then (case bs of
                c1 # c2 # r \<Rightarrow>
                  inRange (if b = CHR 0xE0 then 0xA0 else 0x80) (if b = CHR 0xED then 0x9F else 0xBF) c1
                  \<and> inRange 0x80 0xBF c2 \<and> validUtf8 r
              | _ \<Rightarrow> False)
      else if inRange 0xF0 0xF4 b
        then (case bs of
                c1 # c2 # c3 # r \<Rightarrow>
                  inRange (if b = CHR 0xF0 then 0x90 else 0x80) (if b = CHR 0xF4 then 0x8F else 0xBF) c1
                  \<and> inRange 0x80 0xBF c2 \<and> inRange 0x80 0xBF c3 \<and> validUtf8 r
              | _ \<Rightarrow> False)
      else False)"

section \<open>Package managers (utils/packageManager.ts)\<close>

text \<open>
  \<^verbatim>\<open>type PackageManager = 'npm' | 'pnpm' | 'yarn' | 'bun'\<close> is a compile-time type only: at run
  time the value is whatever string reached the function (the command-line flag is cast with
  \<^verbatim>\<open>as PackageManager\<close>). The model therefore takes a string, and a \<^verbatim>\<open>switch\<close> that falls
  off its end returns \<^verbatim>\<open>undefined\<close>, here \<open>None\<close>.
\<close>

type_synonym PackageManager = string

definition supportedPackageManagers :: "PackageManager list" where
  "supportedPackageManagers = [''npm'', ''pnpm'', ''yarn'', ''bun'']"

definition getInstallCommand :: "PackageManager \<Rightarrow> string option" where
  "getInstallCommand packageManager =
     (if packageManager = ''npm'' then Some ''npm install''
      else if packageManager = ''pnpm'' then Some ''pnpm install''
      else if packageManager = ''yarn'' then Some ''yarn install''
      else if packageManager = ''bun'' then Some ''bun install''
      else None)"

definition getRunCommand :: "PackageManager \<Rightarrow> string \<Rightarrow> string option" where
  "getRunCommand packageManager script =
     (if packageManager = ''npm'' then Some (''npm run '' @ script)
      else if packageManager = ''pnpm'' then Some (''pnpm '' @ script)
      else if packageManager = ''yarn'' then Some (''yarn '' @ script)
      else if packageManager = ''bun'' then Some (''bun run '' @ script)
      else None)"

section \<open>Paths\<close>

text \<open>
  An absolute POSIX path is the list of its components, the root being the empty list.
  \<open>join\<close> is \<^verbatim>\<open>path.join\<close> on an absolute base: the pieces are split at the separator and
  normalised (empty and \<^verbatim>\<open>.\<close> components dropped, \<^verbatim>\<open>..\<close> resolved, the root being its own
  parent). \<open>pathString\<close> is the path as the string that a copy filter receives.
\<close>

type_synonym fpath = "string list"

fun splitPath :: "string \<Rightarrow> string list" where
  "splitPath [] = [[]]"
| "splitPath (c # s) =
     (if c = CHR ''/'' then [] # splitPath s
      else (case splitPath s of [] \<Rightarrow> [[c]] | x # xs \<Rightarrow> (c # x) # xs))"

fun normalizeOnto :: "string list \<Rightarrow> string list \<Rightarrow> fpath" where
  "normalizeOnto stack [] = rev stack"
| "normalizeOnto stack (c # cs) =
     (if c = [] \<or> c = ''.'' then normalizeOnto stack cs
      else if c = ''..'' then normalizeOnto (tl stack) cs
      else normalizeOnto (c # stack) cs)"

definition join :: "fpath \<Rightarrow> string \<Rightarrow> fpath" where
  "join base rel = normalizeOnto [] (base @ splitPath rel)"

definition dirname :: "fpath \<Rightarrow> fpath" where
  "dirname p = butlast p"

fun pathString :: "fpath \<Rightarrow> string" where
  "pathString [] = ''/''"
| "pathString [c] = CHR ''/'' # c"
| "pathString (c # cs) = CHR ''/'' # c @ pathString cs"

definition plain :: "string \<Rightarrow> bool" where
  "plain c = (c \<noteq> [] \<and> c \<noteq> ''.'' \<and> c \<noteq> ''..'')"

text \<open>A normalised path: what \<open>join\<close> returns.\<close>

definition wfPath :: "fpath \<Rightarrow> bool" where
  "wfPath p = list_all plain p"

section \<open>The file system (fs-extra)\<close>

text \<open>
  The file system is a tree: a file with its content, or a directory with its entries in
  listing order. Every operation of \<^verbatim>\<open>fs-extra\<close> the generator calls is a function on the
  root, returning the new root or the error it throws, as the library documents it. Paths
  are normalised, as \<open>join\<close> returns them. Symbolic links, permissions and running out of
  space are not modelled. When an operation fails the run aborts, and the partially written
  tree is not tracked.
\<close>

datatype node = File string | Dir "(string \<times> node) list"

datatype fs_error = ENOENT | ENOTDIR | EISDIR | EEXIST | CopyError

fun lookup :: "node \<Rightarrow> fpath \<Rightarrow> node option" where
  "lookup n [] = Some n"
| "lookup (File _) (c # cs) = None"
| "lookup (Dir es) (c # cs) = (case map_of es c of None \<Rightarrow> None | Some n \<Rightarrow> lookup n cs)"

definition existsSync :: "node \<Rightarrow> fpath \<Rightarrow> bool" where
  "existsSync fs p = (lookup fs p \<noteq> None)"

text \<open>The content of the file at a path, if a file is there; whether a directory is there.\<close>

definition fileAt :: "node \<Rightarrow> fpath \<Rightarrow> string option" where
  "fileAt fs p = (case lookup fs p of Some (File c) \<Rightarrow> Some c | _ \<Rightarrow> None)"

definition isDir :: "node \<Rightarrow> fpath \<Rightarrow> bool" where
  "isDir fs p = (case lookup fs p of Some (Dir _) \<Rightarrow> True | _ \<Rightarrow> False)"

text \<open>
  \<^verbatim>\<open>ensureDirSync\<close> creates the directory and its missing ancestors; it fails when the path
  or an ancestor is a file.
\<close>

fun ensureDirSync :: "fpath \<Rightarrow> node \<Rightarrow> fs_error + node" where
  "ensureDirSync [] (Dir es) = Inr (Dir es)"
| "ensureDirSync [] (File _) = Inl EEXIST"
| "ensureDirSync (c # cs) (File _) = Inl ENOTDIR"
| "ensureDirSync (c # cs) (Dir es) =
     (case ensureDirSync cs (case map_of es c of None \<Rightarrow> Dir [] | Some n \<Rightarrow> n) of
        Inl e \<Rightarrow> Inl e
      | Inr n' \<Rightarrow> Inr (Dir (AList.update c n' es)))"

text \<open>
  \<^verbatim>\<open>writeFileSync\<close> creates or overwrites a file in an existing directory; it fails when the
  parent is missing or not a directory, and when the path is a directory. The file holds the
  UTF-8 encoding of the string written, which is how the string is represented here.
\<close>

fun writeFileSync :: "fpath \<Rightarrow> string \<Rightarrow> node \<Rightarrow> fs_error + node" where
  "writeFileSync [] data (File _) = Inr (File data)"
| "writeFileSync [] data (Dir _) = Inl EISDIR"
| "writeFileSync (c # cs) data (File _) = Inl ENOTDIR"
| "writeFileSync (c # cs) data (Dir es) =
     (case map_of es c of
        None \<Rightarrow> (if cs = [] then Inr (Dir (AList.update c (File data) es)) else Inl ENOENT)
      | Some n \<Rightarrow>
          (case writeFileSync cs data n of
             Inl e \<Rightarrow> Inl e
           | Inr n' \<Rightarrow> Inr (Dir (AList.update c n' es))))"

text \<open>
  \<^verbatim>\<open>readFileSync(path, 'utf-8')\<close> returns the text decoded from the bytes of the file; it
  fails when the path is missing or a directory.
\<close>

definition readFileSync :: "fpath \<Rightarrow> node \<Rightarrow> fs_error + string" where
  "readFileSync p fs =
     (case lookup fs p of
        None \<Rightarrow> Inl ENOENT
      | Some (Dir _) \<Rightarrow> Inl EISDIR
      | Some (File data) \<Rightarrow> Inr (utf8Text data))"

text \<open>\<^verbatim>\<open>removeSync\<close> removes a file or a whole directory; a missing path is no error.\<close>

fun removeSync :: "fpath \<Rightarrow> node \<Rightarrow> node" where
  "removeSync [] n = Dir []"
| "removeSync (c # cs) (File data) = File data"
| "removeSync [c] (Dir es) = Dir (AList.delete c es)"
| "removeSync (c # cs) (Dir es) =
     (case map_of es c of
        None \<Rightarrow> Dir es
      | Some n \<Rightarrow> Dir (AList.update c (removeSync cs n) es))"

text \<open>
  \<^verbatim>\<open>copySync(src, dest, { overwrite: true, filter })\<close>. \<open>copyItem\<close> copies one source node
  over what is at the destination (\<open>None\<close> when nothing is there) and \<open>copyDir\<close> goes through
  the entries of a source directory: an entry whose source path the filter rejects is
  skipped with everything below it. A file overwrites a file, a directory is merged into a
  directory, and a file meeting a directory (either way) is an error.
\<close>

fun copyItem :: "(string \<Rightarrow> bool) \<Rightarrow> fpath \<Rightarrow> node \<Rightarrow> node option \<Rightarrow> fs_error + node"
and copyDir :: "(string \<Rightarrow> bool) \<Rightarrow> fpath \<Rightarrow> (string \<times> node) list \<Rightarrow> (string \<times> node) list
                 \<Rightarrow> fs_error + node" where
  "copyItem flt src (File data) dest =
     (case dest of Some (Dir _) \<Rightarrow> Inl CopyError | _ \<Rightarrow> Inr (File data))"
| "copyItem flt src (Dir items) dest =
     (case dest of
        Some (File _) \<Rightarrow> Inl CopyError
      | Some (Dir ds) \<Rightarrow> copyDir flt src items ds
      | None \<Rightarrow> copyDir flt src items [])"
| "copyDir flt src [] ds = Inr (Dir ds)"
| "copyDir flt src ((item, n) # items) ds =
     (if flt (pathString (src @ [item]))
      then (case copyItem flt (src @ [item]) n (map_of ds item) of
              Inl e \<Rightarrow> Inl e
            | Inr n' \<Rightarrow> copyDir flt src items (AList.update item n' ds))
      else copyDir flt src items ds)"

text \<open>Put a node at a path, creating the missing ancestors.\<close>

fun putNode :: "fpath \<Rightarrow> node \<Rightarrow> node \<Rightarrow> fs_error + node" where
  "putNode [] new old = Inr new"
| "putNode (c # cs) new (File _) = Inl ENOTDIR"
| "putNode (c # cs) new (Dir es) =
     (case putNode cs new (case map_of es c of None \<Rightarrow> Dir [] | Some n \<Rightarrow> n) of
        Inl e \<Rightarrow> Inl e
      | Inr n' \<Rightarrow> Inr (Dir (AList.update c n' es)))"

text \<open>
  The checks \<^verbatim>\<open>copySync\<close> makes on the two paths come first: the source must exist, must not
  be the destination, and a source directory must not contain the destination. Then the
  filter is asked about the source itself. The source is read as it is when the copy starts,
  which is what the library does whenever the source does not lie inside the destination.
\<close>

definition copySync :: "(string \<Rightarrow> bool) \<Rightarrow> fpath \<Rightarrow> fpath \<Rightarrow> node \<Rightarrow> fs_error + node" where
  "copySync flt src dest fs =
     (case lookup fs src of
        None \<Rightarrow> Inl ENOENT
      | Some sn \<Rightarrow>
          if src = dest then Inl CopyError
          else if (case sn of Dir _ \<Rightarrow> prefix src dest | File _ \<Rightarrow> False) then Inl CopyError
          else if (case (sn, lookup fs dest) of
                     (File _, Some (Dir _)) \<Rightarrow> True
                   | (Dir _, Some (File _)) \<Rightarrow> True
                   | _ \<Rightarrow> False) then Inl CopyError
          else if \<not> flt (pathString src) then Inr fs
          else (case copyItem flt src sn (lookup fs dest) of
                  Inl e \<Rightarrow> Inl e
                | Inr n' \<Rightarrow> putNode dest n' fs))"


section \<open>JSON.stringify\<close>

text \<open>
  \<^verbatim>\<open>JSON.stringify(value, null, 2)\<close> on the values the generator builds: strings, booleans and
  objects, whose members keep their order.
\<close>

datatype json = JString string | JBool bool | JObject "(string \<times> json) list"

definition hexDigit :: "nat \<Rightarrow> char" where
  "hexDigit d = ''0123456789abcdef'' ! (d mod 16)"

definition quoteChar :: "char \<Rightarrow> string" where
  "quoteChar c =
     (if c = CHR 0x22 then [CHR 0x5C, CHR 0x22]
      else if c = CHR 0x5C then [CHR 0x5C, CHR 0x5C]
      else if c = CHR 0x08 then [CHR 0x5C, CHR ''b'']
      else if c = CHR 0x09 then [CHR 0x5C, CHR ''t'']
      else if c = CHR 0x0A then [CHR 0x5C, CHR ''n'']
      else if c = CHR 0x0C then [CHR 0x5C, CHR ''f'']
      else if c = CHR 0x0D then [CHR 0x5C, CHR ''r'']
      else if (of_char c :: nat) < 32
        then [CHR 0x5C, CHR ''u'', CHR ''0'', CHR ''0'',
              hexDigit (of_char c div 16), hexDigit (of_char c)]
      else [c])"

definition quoteJSONString :: "string \<Rightarrow> string" where
  "quoteJSONString s = CHR 0x22 # concat (map quoteChar s) @ [CHR 0x22]"

fun stringifyAt :: "string \<Rightarrow> json \<Rightarrow> string"
and stringifyMembers :: "string \<Rightarrow> (string \<times> json) list \<Rightarrow> string" where
  "stringifyAt indent (JString s) = quoteJSONString s"
| "stringifyAt indent (JBool b) = (if b then ''true'' else ''false'')"
| "stringifyAt indent (JObject []) = ''{}''"
| "stringifyAt indent (JObject (m # ms)) =
     ''{'' @ [CHR 0x0A] @ stringifyMembers (indent @ ''  '') (m # ms)
     @ [CHR 0x0A] @ indent @ ''}''"
| "stringifyMembers indent [] = []"
| "stringifyMembers indent ((k, v) # ms) =
     indent @ quoteJSONString k @ '': '' @ stringifyAt indent v
     @ (if ms = [] then [] else '','' @ [CHR 0x0A] @ stringifyMembers indent ms)"

definition stringify :: "json \<Rightarrow> string" where
  "stringify v = stringifyAt [] v"

section \<open>The manifest (utils/fileGenerator.ts, getProjectStructure)\<close>

record TemplateVariables =
  projectName :: string
  packageManager :: PackageManager

record FileEntry =
  path :: string
  content :: string

text \<open>A text of several lines, each ended by a line feed.\<close>

definition textLines :: "string list \<Rightarrow> string" where
  "textLines ls = concat (map (\<lambda>l. l @ [CHR 0x0A]) ls)"

text \<open>
  The object that becomes \<^verbatim>\<open>package.json\<close>: the name, then the members that are the same
  for every project.
\<close>

definition packageJsonFixed :: "(string \<times> json) list" where
  "packageJsonFixed =
     [(''version'', JString ''0.1.0''),
      (''private'', JBool True),
      (''scripts'', JObject [
         (''dev'', JString ''next dev''),
         (''build'', JString ''next build''),
         (''start'', JString ''next start''),
         (''lint'', JString ''eslint'')]),
      (''dependencies'', JObject [
         (''@hookform/resolvers'', JString ''^5.2.2''),
         (''@tanstack/react-query'', JString ''^5.90.20''),
         (''class-variance-authority'', JString ''^0.7.1''),
         (''clsx'', JString ''^2.1.1''),
         (''lucide-react'', JString ''^0.563.0''),
         (''next'', JString ''16.1.6''),
         (''radix-ui'', JString ''^1.4.3''),
         (''react'', JString ''19.2.3''),
         (''react-dom'', JString ''19.2.3''),
         (''react-hook-form'', JString ''^7.71.1''),
         (''tailwind-merge'', JString ''^3.4.0''),
         (''zod'', JString ''^4.3.6'')]),
      (''devDependencies'', JObject [
         (''@tailwindcss/postcss'', JString ''^4''),
         (''@types/node'', JString ''^20''),
         (''@types/react'', JString ''^19''),
         (''@types/react-dom'', JString ''^19''),
         (''eslint'', JString ''^9''),
         (''eslint-config-next'', JString ''16.1.6''),
         (''tailwindcss'', JString ''^4''),
         (''tw-animate-css'', JString ''^1.4.0''),
         (''typescript'', JString ''^5'')])]"

definition packageJson :: "string \<Rightarrow> json" where
  "packageJson name = JObject ((''name'', JString name) # packageJsonFixed)"

text \<open>
  The install and run commands that \<open>getProjectStructure\<close> derives itself, by a chain of
  conditionals whose last branch takes every remaining value.
\<close>

definition manifestInstallCmd :: "PackageManager \<Rightarrow> string" where
  "manifestInstallCmd pm =
     (if pm = ''npm'' then ''npm install''
      else if pm = ''pnpm'' then ''pnpm install''
      else if pm = ''yarn'' then ''yarn install'' else ''bun install'')"

definition manifestDevCmd :: "PackageManager \<Rightarrow> string" where
  "manifestDevCmd pm =
     (if pm = ''npm'' then ''npm run dev''
      else if pm = ''pnpm'' then ''pnpm dev''
      else if pm = ''yarn'' then ''yarn dev'' else ''bun run dev'')"

definition readme :: "string \<Rightarrow> string \<Rightarrow> string \<Rightarrow> string" where
  \<open>readme name installCmd devCmd =
     textLines [
       ''# '' @ name,
       '''',
       ''This is a [Next.js](https://nextjs.org) project bootstrapped with [scaffold](https://github.com/your-repo/scaffold).'',
       '''',
       ''## Getting Started'',
       '''',
       ''First, install dependencies:'',
       '''',
       ''```bash'',
       installCmd,
       ''```'',
       '''',
       ''Then, run the development server:'',
       '''',
       ''```bash'',
       devCmd,
       ''```'',
       '''',
       ''Open [http://localhost:3000](http://localhost:3000) with your browser to see the result.'',
       '''',
       ''## Project Structure'',
       '''',
       ''```'',
       ''src/'',
       ''  app/              # Next.js app directory'',
       ''  config/           # Configuration files'',
       ''  features/         # Feature-based modules'',
       ''  shared/           # Shared utilities and components'',
       ''  stores/           # State management'',
       ''  styles/           # Global styles'',
       ''  tests/            # Test files'',
       ''```'',
       '''',
       ''## Learn More'',
       '''',
       ''To learn more about Next.js, take a look at the following resources:'',
       '''',
       ''- [Next.js Documentation](https://nextjs.org/docs) - learn about Next.js features and API.'',
       ''- [Learn Next.js](https://nextjs.org/learn) - an interactive Next.js tutorial.'']\<close>

text \<open>
  Of the 27 entries only \<^verbatim>\<open>package.json\<close> and \<^verbatim>\<open>README.md\<close> depend on the variables. The
  other 25 are fixed texts (source files, style sheet and configuration of the generated
  project, about a thousand lines): they are the parameter \<open>fixedText\<close>, from the path of an
  entry to its text, so that what is proved holds whatever they contain.
\<close>

definition getProjectStructure :: "(string \<Rightarrow> string) \<Rightarrow> TemplateVariables \<Rightarrow> FileEntry list" where
  "getProjectStructure fixedText variables =
     (let installCmd = manifestInstallCmd (packageManager variables);
          devCmd = manifestDevCmd (packageManager variables)
      in \<lparr>path = ''package.json'',
            content = stringify (packageJson (projectName variables))\<rparr>
         # map (\<lambda>p. \<lparr>path = p, content = fixedText p\<rparr>)
             [''tsconfig.json'', ''next.config.ts'', ''eslint.config.mjs'', ''postcss.config.mjs'']
         @ \<lparr>path = ''README.md'',
              content = readme (projectName variables) installCmd devCmd\<rparr>
         # map (\<lambda>p. \<lparr>path = p, content = fixedText p\<rparr>)
             [''src/app/layout.tsx'',
              ''src/app/providers.tsx'',
              ''src/app/page.tsx'',
              ''src/styles/globals.css'',
              ''src/config/routes.ts'',
              ''src/config/.env.example'',
              ''src/proxy.ts'',
              ''src/shared/components/CodeBlock.tsx'',
              ''src/shared/libs/utils.ts'',
              ''src/shared/libs/api.service.ts'',
              ''src/shared/hooks/useFormWithZod.ts'',
              ''src/shared/utils/checkTokenExpiration.ts'',
              ''src/features/auth/auth.type.ts'',
              ''src/features/auth/auth.api.ts'',
              ''src/features/auth/auth.service.ts'',
              ''src/features/auth/auth.validation.ts'',
              ''src/features/auth/auth.store.ts'',
              ''src/features/auth/hooks/useAuth.ts'',
              ''src/features/auth/components/LoginForm.tsx'',
              ''.gitignore'',
              ''next-env.d.ts''])"

section \<open>The directory materializer (utils/fileGenerator.ts)\<close>

definition emptyDirs :: "string list" where
  "emptyDirs =
     [''src/shared/constants'',
      ''src/shared/types'',
      ''src/shared/components/shadcnUi'',
      ''src/stores'',
      ''src/tests/e2e'',
      ''src/tests/unit'']"

text \<open>The first loop of \<open>createProjectStructure\<close>: each directory and its \<^verbatim>\<open>.gitkeep\<close>.\<close>

fun createEmptyDirs :: "fpath \<Rightarrow> string list \<Rightarrow> node \<Rightarrow> fs_error + node" where
  "createEmptyDirs targetPath [] fs = Inr fs"
| "createEmptyDirs targetPath (dir # dirs) fs =
     (case ensureDirSync (join targetPath dir) fs of
        Inl e \<Rightarrow> Inl e
      | Inr fs1 \<Rightarrow>
          (case writeFileSync (join (join targetPath dir) ''.gitkeep'') [] fs1 of
             Inl e \<Rightarrow> Inl e
           | Inr fs2 \<Rightarrow> createEmptyDirs targetPath dirs fs2))"

text \<open>The second loop: each file of the manifest, after the directory it lies in.\<close>

fun writeFiles :: "fpath \<Rightarrow> FileEntry list \<Rightarrow> node \<Rightarrow> fs_error + node" where
  "writeFiles targetPath [] fs = Inr fs"
| "writeFiles targetPath (file # files) fs =
     (case ensureDirSync (dirname (join targetPath (path file))) fs of
        Inl e \<Rightarrow> Inl e
      | Inr fs1 \<Rightarrow>
          (case writeFileSync (join targetPath (path file)) (content file) fs1 of
             Inl e \<Rightarrow> Inl e
           | Inr fs2 \<Rightarrow> writeFiles targetPath files fs2))"

definition createProjectStructure ::
  "(string \<Rightarrow> string) \<Rightarrow> fpath \<Rightarrow> TemplateVariables \<Rightarrow> node \<Rightarrow> fs_error + node" where
  "createProjectStructure fixedText targetPath variables fs =
     (case createEmptyDirs targetPath emptyDirs fs of
        Inl e \<Rightarrow> Inl e
      | Inr fs1 \<Rightarrow>
          (case ensureDirSync (join targetPath ''public'') fs1 of
             Inl e \<Rightarrow> Inl e
           | Inr fs2 \<Rightarrow> writeFiles targetPath (getProjectStructure fixedText variables) fs2))"

text \<open>The filter of \<open>copyTemplates\<close>, on the source path as a string.\<close>

definition templateFilter :: "string \<Rightarrow> bool" where
  "templateFilter src =
     (\<not> str_includes src ''node_modules'' \<and> \<not> str_includes src ''.git''
      \<and> \<not> str_includes src ''dist'')"

definition copyTemplates ::
  "(string \<Rightarrow> string) \<Rightarrow> fpath \<Rightarrow> fpath \<Rightarrow> TemplateVariables \<Rightarrow> node \<Rightarrow> fs_error + node" where
  "copyTemplates fixedText templatesPath targetPath variables fs =
     (case ensureDirSync targetPath fs of
        Inl e \<Rightarrow> Inl e
      | Inr fs1 \<Rightarrow>
          if existsSync fs1 templatesPath
          then copySync templateFilter templatesPath targetPath fs1
          else createProjectStructure fixedText targetPath variables fs1)"

section \<open>The substitution pass (utils/fileGenerator.ts, generateFiles)\<close>

definition projectNameToken :: string where
  "projectNameToken = ''{{projectName}}''"

definition packageManagerToken :: string where
  "packageManagerToken = ''{{packageManager}}''"

definition substitutePackageJson :: "TemplateVariables \<Rightarrow> string \<Rightarrow> string" where
  "substitutePackageJson variables content0 =
     replaceAll projectNameToken (projectName variables) content0"

definition substituteReadme :: "TemplateVariables \<Rightarrow> string \<Rightarrow> string" where
  "substituteReadme variables content0 =
     replaceAll packageManagerToken (packageManager variables)
       (replaceAll projectNameToken (projectName variables) content0)"

text \<open>
  One of the two blocks of \<open>generateFiles\<close>: if the file exists, read it as UTF-8 text,
  replace, write.
\<close>

definition rewriteFile :: "fpath \<Rightarrow> (string \<Rightarrow> string) \<Rightarrow> node \<Rightarrow> fs_error + node" where
  "rewriteFile p f fs =
     (if existsSync fs p
      then (case readFileSync p fs of
              Inl e \<Rightarrow> Inl e
            | Inr content0 \<Rightarrow> writeFileSync p (f content0) fs)
      else Inr fs)"

definition generateFiles :: "fpath \<Rightarrow> TemplateVariables \<Rightarrow> node \<Rightarrow> fs_error + node" where
  "generateFiles projectPath variables fs =
     (case rewriteFile (join projectPath ''package.json'') (substitutePackageJson variables) fs of
        Inl e \<Rightarrow> Inl e
      | Inr fs1 \<Rightarrow>
          rewriteFile (join projectPath ''README.md'') (substituteReadme variables) fs1)"

section \<open>The orchestrator (createProject.ts) and the command line (index.ts)\<close>

text \<open>
  What a run prints and which subprocess it starts is a list of events, in order. The texts
  are the program's without their emoji, colours and blank lines.
\<close>

datatype event =
    ConsoleLog string
  | SpinnerStart string
  | SpinnerSucceed string
  | SpinnerFail string
  | ExecSync "string option" fpath

text \<open>
  The surroundings of a run: the working directory, the directory of the compiled module
  (the templates are looked for beside it), what the installer subprocess does to the file
  system and whether it succeeds, and the answers the user gives when asked (for the project
  name, the answer that the prompt accepts).
\<close>

record Env =
  cwd :: fpath
  moduleDir :: fpath
  subprocess :: "string \<Rightarrow> fpath \<Rightarrow> node \<Rightarrow> bool \<times> node"
  answerPackageManager :: string
  answerProjectName :: string
  answerOverwrite :: bool

record CreateProjectOptions = TemplateVariables +
  skipPrompts :: bool
  autoInstall :: bool

text \<open>
  The installation step. \<^verbatim>\<open>execSync\<close> throws when the command is \<^verbatim>\<open>undefined\<close> and when the
  subprocess fails; either way the exception is caught here. \<open>runInstaller\<close> is the call of
  \<^verbatim>\<open>execSync\<close>: whether it returned, and the file system it leaves.
\<close>

definition runInstaller :: "Env \<Rightarrow> PackageManager \<Rightarrow> fpath \<Rightarrow> node \<Rightarrow> bool \<times> node" where
  "runInstaller env pm projectPath fs =
     (case getInstallCommand pm of
        None \<Rightarrow> (False, fs)
      | Some cmd \<Rightarrow> subprocess env cmd projectPath fs)"

definition installDependencies :: "Env \<Rightarrow> PackageManager \<Rightarrow> fpath \<Rightarrow> node \<Rightarrow> node \<times> event list" where
  "installDependencies env pm projectPath fs =
     (let (ok, fs') = runInstaller env pm projectPath fs
      in (fs',
          [SpinnerStart (''Installing dependencies with '' @ pm @ ''...''),
           ExecSync (getInstallCommand pm) projectPath]
          @ (if ok then [SpinnerSucceed ''Dependencies installed'']
             else [SpinnerFail ''Dependencies installation failed (you can install manually)'',
                   ConsoleLog (''  Run: '' @ interpolate (getInstallCommand pm))])))"

definition nextSteps :: "CreateProjectOptions \<Rightarrow> event list" where
  "nextSteps options =
     [ConsoleLog ''Ready to start coding!'',
      ConsoleLog ''Next steps:'',
      ConsoleLog (''  cd '' @ projectName options)]
     @ (if \<not> autoInstall options
        then [ConsoleLog (''  '' @ interpolate (getInstallCommand (packageManager options)))]
        else [])
     @ [ConsoleLog (''  '' @ interpolate (getRunCommand (packageManager options) ''dev''))]"

text \<open>The pieces of \<open>createProject\<close>, in the order of its body.\<close>

definition projectPathOf :: "Env \<Rightarrow> CreateProjectOptions \<Rightarrow> fpath" where
  "projectPathOf env options = join (cwd env) (projectName options)"

definition templatesPathOf :: "Env \<Rightarrow> fpath" where
  "templatesPathOf env = join (moduleDir env) ''../templates''"

definition variablesOf :: "CreateProjectOptions \<Rightarrow> TemplateVariables" where
  "variablesOf options =
     \<lparr>projectName = projectName options, packageManager = packageManager options\<rparr>"

text \<open>The directory exists, the user is asked, and the answer is no.\<close>

definition declined :: "Env \<Rightarrow> CreateProjectOptions \<Rightarrow> node \<Rightarrow> bool" where
  "declined env options fs =
     (existsSync fs (projectPathOf env options) \<and> \<not> skipPrompts options
      \<and> \<not> answerOverwrite env)"

definition removeExisting :: "Env \<Rightarrow> CreateProjectOptions \<Rightarrow> node \<Rightarrow> node \<times> event list" where
  "removeExisting env options fs =
     (if existsSync fs (projectPathOf env options)
      then (removeSync (projectPathOf env options) fs,
            [SpinnerStart ''Removing existing directory...'',
             SpinnerSucceed ''Directory removed''])
      else (fs, []))"

text \<open>Materialization, then substitution.\<close>

definition scaffold ::
  "Env \<Rightarrow> (string \<Rightarrow> string) \<Rightarrow> CreateProjectOptions \<Rightarrow> node \<Rightarrow> fs_error + node" where
  "scaffold env fixedText options fs =
     (case copyTemplates fixedText (templatesPathOf env) (projectPathOf env options)
             (variablesOf options) fs of
        Inl e \<Rightarrow> Inl e
      | Inr fs1 \<Rightarrow> generateFiles (projectPathOf env options) (variablesOf options) fs1)"

definition createProject ::
  "Env \<Rightarrow> (string \<Rightarrow> string) \<Rightarrow> CreateProjectOptions \<Rightarrow> node \<Rightarrow> fs_error + node \<times> event list" where
  "createProject env fixedText options fs =
     (if declined env options fs
      then Inr (fs, [ConsoleLog ''Cancelled.''])
      else
        (let (fs0, removed) = removeExisting env options fs
         in case scaffold env fixedText options fs0 of
              Inl e \<Rightarrow> Inl e
            | Inr fs2 \<Rightarrow>
                (let (fs3, installed) =
                       (if autoInstall options
                        then installDependencies env (packageManager options)
                               (projectPathOf env options) fs2
                        else (fs2, []))
                 in Inr (fs3,
                         removed
                         @ [SpinnerStart ''Creating project structure...'',
                            SpinnerSucceed ''Project structure created'',
                            SpinnerStart ''Generating files...'',
                            SpinnerSucceed ''Files generated'',
                            ConsoleLog ''Project created successfully!'']
                         @ installed @ nextSteps options))))"

text \<open>
  The action of the command: the options of the command line are
  \<^verbatim>\<open>{ packageManager?: string; yes?: boolean }\<close>, the project name is an optional argument. An
  exception of \<open>createProject\<close> ends the process with exit code 1; otherwise the process ends
  with exit code 0.
\<close>

text \<open>
  The check of the project-name prompt: the trimmed input is not empty and matches
  \<^verbatim>\<open>/^[a-z0-9-]+$/i\<close>. A name given on the command line is not checked.
\<close>

definition nameChars :: string where
  "nameChars = ''abcdefghijklmnopqrstuvwxyzABCDEFGHIJKLMNOPQRSTUVWXYZ0123456789-''"

definition matchesNamePattern :: "string \<Rightarrow> bool" where
  "matchesNamePattern s = (s \<noteq> [] \<and> list_all (\<lambda>c. c \<in> set nameChars) s)"

definition validate :: "string \<Rightarrow> bool" where
  "validate input = (trim input \<noteq> [] \<and> matchesNamePattern (trim input))"

record CliOptions =
  packageManagerFlag :: "string option"
  yes :: bool

datatype outcome = Completed node "event list" | Failed fs_error

fun exitCode :: "outcome \<Rightarrow> nat" where
  "exitCode (Completed _ _) = 0"
| "exitCode (Failed _) = 1"

definition chosenOptions :: "Env \<Rightarrow> string option \<Rightarrow> CliOptions \<Rightarrow> CreateProjectOptions" where
  "chosenOptions env projectNameArg options =
     (if yes options
      then \<lparr>projectName = (if truthy projectNameArg then the projectNameArg else ''my-nextjs-app''),
            packageManager = (if truthy (packageManagerFlag options)
                              then the (packageManagerFlag options) else ''npm''),
            skipPrompts = True,
            autoInstall = False\<rparr>
      else \<lparr>projectName = (if \<not> truthy projectNameArg then trim (answerProjectName env)
                            else the projectNameArg),
            packageManager = (if \<not> truthy (packageManagerFlag options)
                              then answerPackageManager env
                              else the (packageManagerFlag options)),
            skipPrompts = False,
            autoInstall = True\<rparr>)"

definition action :: "Env \<Rightarrow> (string \<Rightarrow> string) \<Rightarrow> string option \<Rightarrow> CliOptions \<Rightarrow> node \<Rightarrow> outcome" where
  "action env fixedText projectNameArg options fs =
     (case createProject env fixedText (chosenOptions env projectNameArg options) fs of
        Inl e \<Rightarrow> Failed e
      | Inr (fs', events) \<Rightarrow> Completed fs' (ConsoleLog ''Next.js Scaffold Generator'' # events))"

section \<open>Notions used in the statements\<close>

text \<open>The paths of the manifest, in its order.\<close>

definition manifestPaths :: "string list" where
  "manifestPaths =
     [''package.json'', ''tsconfig.json'', ''next.config.ts'', ''eslint.config.mjs'',
      ''postcss.config.mjs'', ''README.md'',
      ''src/app/layout.tsx'',
      ''src/app/providers.tsx'',
      ''src/app/page.tsx'',
      ''src/styles/globals.css'',
      ''src/config/routes.ts'',
      ''src/config/.env.example'',
      ''src/proxy.ts'',
      ''src/shared/components/CodeBlock.tsx'',
      ''src/shared/libs/utils.ts'',
      ''src/shared/libs/api.service.ts'',
      ''src/shared/hooks/useFormWithZod.ts'',
      ''src/shared/utils/checkTokenExpiration.ts'',
      ''src/features/auth/auth.type.ts'',
      ''src/features/auth/auth.api.ts'',
      ''src/features/auth/auth.service.ts'',
      ''src/features/auth/auth.validation.ts'',
      ''src/features/auth/auth.store.ts'',
      ''src/features/auth/hooks/useAuth.ts'',
      ''src/features/auth/components/LoginForm.tsx'',
      ''.gitignore'',
      ''next-env.d.ts'']"

text \<open>The content the manifest gives for a path.\<close>

definition manifestContent :: "(string \<Rightarrow> string) \<Rightarrow> TemplateVariables \<Rightarrow> string \<Rightarrow> string option" where
  "manifestContent fixedText variables p =
     map_option content (find (\<lambda>f. path f = p) (getProjectStructure fixedText variables))"


definition fileAtOpt :: "node option \<Rightarrow> fpath \<Rightarrow> string option" where
  "fileAtOpt dest rel = (case dest of None \<Rightarrow> None | Some n \<Rightarrow> fileAt n rel)"


text \<open>The segments of a text, with a separator between each two.\<close>

fun joinWith :: "string \<Rightarrow> string list \<Rightarrow> string" where
  "joinWith sep [] = []"
| "joinWith sep [s] = s"
| "joinWith sep (s # ss) = s @ sep @ joinWith sep ss"

text \<open>
  The segments of a text between the occurrences of a token, found from left to right as
  the replacement finds them. A token is free of borders when no proper prefix of it is also
  its suffix: two occurrences of such a token cannot overlap.
\<close>

fun segments :: "string \<Rightarrow> string \<Rightarrow> string \<Rightarrow> string list" where
  "segments token seg [] = [seg]"
| "segments token seg (c # s) =
     (if token \<noteq> [] \<and> prefix token (c # s)
      then seg # segments token [] (drop (length token) (c # s))
      else segments token (seg @ [c]) s)"

definition borderFree :: "string \<Rightarrow> bool" where
  "borderFree token = list_all (\<lambda>y. y = [] \<or> \<not> suffix y token) (prefixes (butlast token))"

fun isExec :: "event \<Rightarrow> bool" where
  "isExec (ExecSync _ _) = True"
| "isExec _ = False"

text \<open>The file at a path when the run is over, if the run completed.\<close>

definition fileAfter :: "outcome \<Rightarrow> fpath \<Rightarrow> string option" where
  "fileAfter r p = (case r of Completed fs' _ \<Rightarrow> fileAt fs' p | Failed _ \<Rightarrow> None)"

section \<open>Examples\<close>

definition exampleVariables :: TemplateVariables where
  "exampleVariables = \<lparr>projectName = ''demo-app'', packageManager = ''pnpm''\<rparr>"

definition exampleTemplates :: "(string \<times> node) list" where
  \<open>exampleTemplates =
     [(''package.json'', File ''{ "name": "{{projectName}}", "packageManager": "{{packageManager}}" }''),
      (''README.md'', File ''# {{projectName}}: {{packageManager}} install, {{packageManager}} dev''),
      (''.gitignore'', File ''dist''),
      (''node_modules'', Dir [(''dep.js'', File ''module.exports = 1'')]),
      (''src'', Dir [(''index.ts'', File ''export {}'')])]\<close>

definition exampleTemplateFs :: node where
  "exampleTemplateFs = Dir [(''tpl'', Dir exampleTemplates), (''out'', Dir [])]"

definition exampleCopied :: node where
  \<open>exampleCopied =
     Dir [(''tpl'', Dir exampleTemplates),
          (''out'', Dir [
             (''package.json'', File ''{ "name": "{{projectName}}", "packageManager": "{{packageManager}}" }''),
             (''README.md'', File ''# {{projectName}}: {{packageManager}} install, {{packageManager}} dev''),
             (''src'', Dir [(''index.ts'', File ''export {}'')])])]\<close>

definition exampleSubstituted :: node where
  \<open>exampleSubstituted =
     Dir [(''tpl'', Dir exampleTemplates),
          (''out'', Dir [
             (''package.json'', File ''{ "name": "demo-app", "packageManager": "{{packageManager}}" }''),
             (''README.md'', File ''# demo-app: pnpm install, pnpm dev''),
             (''src'', Dir [(''index.ts'', File ''export {}'')])])]\<close>

definition exampleTemplateFs2 :: node where
  "exampleTemplateFs2 =
     Dir [(''tpl'', Dir exampleTemplates), (''notes.txt'', File ''elsewhere''), (''out'', Dir [])]"

text \<open>An installer that fails and leaves the file system as it is.\<close>

definition failingInstaller :: "string \<Rightarrow> fpath \<Rightarrow> node \<Rightarrow> bool \<times> node" where
  "failingInstaller cmd dir fs = (False, fs)"

definition exampleEnv :: Env where
  "exampleEnv =
     \<lparr>cwd = [''home''], moduleDir = [''pkg'', ''dist''], subprocess = failingInstaller,
      answerPackageManager = ''pnpm'', answerProjectName = ''demo-app'',
      answerOverwrite = False\<rparr>"

definition exampleHome :: node where
  "exampleHome = Dir [(''home'', Dir [])]"

definition exampleExisting :: node where
  "exampleExisting = Dir [(''home'', Dir [(''demo-app'', Dir [(''notes.txt'', File ''mine'')])])]"

definition interactive :: CliOptions where
  "interactive = \<lparr>packageManagerFlag = None, yes = False\<rparr>"

definition acceptDefaults :: CliOptions where
  "acceptDefaults = \<lparr>packageManagerFlag = None, yes = True\<rparr>"

definition exampleBadFlag :: CliOptions where
  "exampleBadFlag = \<lparr>packageManagerFlag = Some ''pip'', yes = True\<rparr>"

section \<open>Lemmas\<close>

subsection \<open>Paths\<close>

lemma normalizeOnto_plain: "list_all plain cs \<Longrightarrow> normalizeOnto stack cs = rev stack @ cs"
proof (induction cs arbitrary: stack)
  case Nil
  then show ?case by simp
next
  case (Cons c cs)
  then have "c \<noteq> []" "c \<noteq> ''.''" "c \<noteq> ''..''" and "list_all plain cs"
    unfolding plain_def by simp_all
  then show ?case using Cons.IH [of "c # stack"] by simp
qed

lemma normalizeOnto_append:
  "normalizeOnto stack (a @ b) = normalizeOnto (rev (normalizeOnto stack a)) b"
  by (induction a arbitrary: stack) auto

lemma normalizeOnto_wf: "list_all plain stack \<Longrightarrow> list_all plain (normalizeOnto stack cs)"
proof (induction cs arbitrary: stack)
  case Nil
  then show ?case by (simp add: list_all_iff)
next
  case (Cons c cs)
  have tl: "list_all plain (tl stack)" using Cons.prems by (cases stack) auto
  show ?case
  proof (cases "c = [] \<or> c = ''.''")
    case True
    then show ?thesis using Cons by auto
  next
    case False
    show ?thesis
    proof (cases "c = ''..''")
      case True
      then show ?thesis using Cons.IH [OF tl] by simp
    next
      case False
      with \<open>\<not> (c = [] \<or> c = ''.'')\<close> have "plain c"
        unfolding plain_def by simp
      then have "list_all plain (c # stack)"
        using Cons.prems by simp
      from Cons.IH [OF this] show ?thesis
        using False \<open>\<not> (c = [] \<or> c = ''.'')\<close> by simp
    qed
  qed
qed

lemma join_wf: "wfPath (join base rel)"
  by (simp add: wfPath_def join_def normalizeOnto_wf)

lemma join_plain:
  "list_all plain (splitPath rel) \<Longrightarrow> join base rel = normalizeOnto [] base @ splitPath rel"
  by (simp add: join_def normalizeOnto_append normalizeOnto_plain)

lemma join_wfPath:
  "wfPath base \<Longrightarrow> list_all plain (splitPath rel) \<Longrightarrow> join base rel = base @ splitPath rel"
  by (simp add: join_plain wfPath_def normalizeOnto_plain)

subsection \<open>Files and directories after an operation\<close>

lemma fileAt_Nil [simp]: "fileAt n [] = (case n of File d \<Rightarrow> Some d | Dir _ \<Rightarrow> None)"
  by (simp add: fileAt_def split: node.splits)

lemma fileAt_File_Cons [simp]: "fileAt (File d) (c # cs) = None"
  by (simp add: fileAt_def)

lemma fileAt_Dir_Cons [simp]:
  "fileAt (Dir es) (c # cs) = (case map_of es c of None \<Rightarrow> None | Some n \<Rightarrow> fileAt n cs)"
  by (simp add: fileAt_def split: option.splits)

lemma isDir_Nil [simp]: "isDir n [] = (case n of File _ \<Rightarrow> False | Dir _ \<Rightarrow> True)"
  by (simp add: isDir_def split: node.splits)

lemma isDir_File_Cons [simp]: "isDir (File d) (c # cs) = False"
  by (simp add: isDir_def)

lemma isDir_Dir_Cons [simp]:
  "isDir (Dir es) (c # cs) = (case map_of es c of None \<Rightarrow> False | Some n \<Rightarrow> isDir n cs)"
  by (simp add: isDir_def split: option.splits)

lemma fileAt_empty [simp]: "fileAt (Dir []) r = None"
  by (cases r) auto

lemma isDir_empty [simp]: "isDir (Dir []) r = (r = [])"
  by (cases r) auto

lemma ensureDirSync_fileAt:
  "ensureDirSync p fs = Inr fs' \<Longrightarrow> fileAt fs' q = fileAt fs q"
proof (induction p arbitrary: fs fs' q)
  case Nil
  then show ?case by (cases fs) auto
next
  case (Cons c cs)
  show ?case
  proof (cases fs)
    case (File d)
    with Cons.prems show ?thesis by simp
  next
    case (Dir es)
    let ?child = "case map_of es c of None \<Rightarrow> Dir [] | Some n \<Rightarrow> n"
    from Cons.prems Dir obtain n' where
      n': "ensureDirSync cs ?child = Inr n'" and fs': "fs' = Dir (AList.update c n' es)"
      by (auto split: sum.splits)
    have ih: "\<And>r. fileAt n' r = fileAt ?child r"
      using Cons.IH [OF n'] .
    show ?thesis
    proof (cases q)
      case Nil
      with Dir fs' show ?thesis by simp
    next
      case (Cons a r)
      then show ?thesis using Dir fs' ih [of r]
        by (auto simp: update_conv' split: option.splits)
    qed
  qed
qed

lemma ensureDirSync_isDir_mono:
  "ensureDirSync p fs = Inr fs' \<Longrightarrow> isDir fs q \<Longrightarrow> isDir fs' q"
proof (induction p arbitrary: fs fs' q)
  case Nil
  then show ?case by (cases fs) auto
next
  case (Cons c cs)
  show ?case
  proof (cases fs)
    case (File d)
    with Cons.prems show ?thesis by simp
  next
    case (Dir es)
    let ?child = "case map_of es c of None \<Rightarrow> Dir [] | Some n \<Rightarrow> n"
    from Cons.prems Dir obtain n' where
      n': "ensureDirSync cs ?child = Inr n'" and fs': "fs' = Dir (AList.update c n' es)"
      by (auto split: sum.splits)
    have ih: "\<And>r. isDir ?child r \<Longrightarrow> isDir n' r"
      using Cons.IH [OF n'] .
    show ?thesis
    proof (cases q)
      case Nil
      with Dir fs' show ?thesis by simp
    next
      case (Cons a r)
      then show ?thesis using Dir fs' ih [of r] Cons.prems(2)
        by (auto simp: update_conv' split: option.splits)
    qed
  qed
qed

lemma ensureDirSync_isDir:
  "ensureDirSync p fs = Inr fs' \<Longrightarrow> isDir fs' p"
proof (induction p arbitrary: fs fs')
  case Nil
  then show ?case by (cases fs) auto
next
  case (Cons c cs)
  then show ?case
    by (cases fs) (auto simp: update_conv' split: sum.splits)
qed

lemma writeFileSync_fileAt:
  "writeFileSync p d fs = Inr fs' \<Longrightarrow> fileAt fs' q = (if q = p then Some d else fileAt fs q)"
proof (induction p arbitrary: fs fs' q)
  case Nil
  then show ?case by (cases fs; cases q) auto
next
  case (Cons c cs)
  show ?case
  proof (cases fs)
    case (File x)
    with Cons.prems show ?thesis by simp
  next
    case (Dir es)
    show ?thesis
    proof (cases "map_of es c")
      case None
      with Cons.prems Dir have cs: "cs = []" and fs': "fs' = Dir (AList.update c (File d) es)"
        by (auto split: if_splits)
      show ?thesis
      proof (cases q)
        case Nil
        with Dir fs' show ?thesis by simp
      next
        case (Cons a r)
        then show ?thesis using Dir fs' cs None
          by (cases r) (auto simp: update_conv' split: option.splits)
      qed
    next
      case (Some n)
      with Cons.prems Dir obtain n' where
        n': "writeFileSync cs d n = Inr n'" and fs': "fs' = Dir (AList.update c n' es)"
        by (auto split: sum.splits)
      have ih: "\<And>r. fileAt n' r = (if r = cs then Some d else fileAt n r)"
        using Cons.IH [OF n'] .
      show ?thesis
      proof (cases q)
        case Nil
        with Dir fs' show ?thesis by simp
      next
        case (Cons a r)
        then show ?thesis using Dir fs' Some ih [of r]
          by (auto simp: update_conv' split: option.splits)
      qed
    qed
  qed
qed

lemma writeFileSync_isDir:
  "writeFileSync p d fs = Inr fs' \<Longrightarrow> isDir fs' q = isDir fs q"
proof (induction p arbitrary: fs fs' q)
  case Nil
  then show ?case by (cases fs; cases q) auto
next
  case (Cons c cs)
  show ?case
  proof (cases fs)
    case (File x)
    with Cons.prems show ?thesis by simp
  next
    case (Dir es)
    show ?thesis
    proof (cases "map_of es c")
      case None
      with Cons.prems Dir have cs: "cs = []" and fs': "fs' = Dir (AList.update c (File d) es)"
        by (auto split: if_splits)
      show ?thesis
      proof (cases q)
        case Nil
        with Dir fs' show ?thesis by simp
      next
        case (Cons a r)
        then show ?thesis using Dir fs' cs None
          by (cases r) (auto simp: update_conv' split: option.splits)
      qed
    next
      case (Some n)
      with Cons.prems Dir obtain n' where
        n': "writeFileSync cs d n = Inr n'" and fs': "fs' = Dir (AList.update c n' es)"
        by (auto split: sum.splits)
      have ih: "\<And>r. isDir n' r = isDir n r"
        using Cons.IH [OF n'] .
      show ?thesis
      proof (cases q)
        case Nil
        with Dir fs' show ?thesis by simp
      next
        case (Cons a r)
        then show ?thesis using Dir fs' Some ih [of r]
          by (auto simp: update_conv' split: option.splits)
      qed
    qed
  qed
qed

subsection \<open>The two loops of the materializer\<close>

lemma createEmptyDirs_keeps_empty_file:
  "createEmptyDirs t dirs fs = Inr fs' \<Longrightarrow> fileAt fs q = Some [] \<Longrightarrow> fileAt fs' q = Some []"
proof (induction dirs arbitrary: fs)
  case Nil
  then show ?case by simp
next
  case (Cons d dirs)
  from Cons.prems(1) obtain fs1 fs2 where
    e: "ensureDirSync (join t d) fs = Inr fs1" and
    w: "writeFileSync (join (join t d) ''.gitkeep'') [] fs1 = Inr fs2" and
    r: "createEmptyDirs t dirs fs2 = Inr fs'"
    by (auto split: sum.splits)
  have "fileAt fs2 q = Some []"
    using Cons.prems(2) by (simp add: writeFileSync_fileAt [OF w] ensureDirSync_fileAt [OF e])
  then show ?case by (rule Cons.IH [OF r])
qed

lemma createEmptyDirs_isDir_mono:
  "createEmptyDirs t dirs fs = Inr fs' \<Longrightarrow> isDir fs q \<Longrightarrow> isDir fs' q"
proof (induction dirs arbitrary: fs)
  case Nil
  then show ?case by simp
next
  case (Cons d dirs)
  from Cons.prems(1) obtain fs1 fs2 where
    e: "ensureDirSync (join t d) fs = Inr fs1" and
    w: "writeFileSync (join (join t d) ''.gitkeep'') [] fs1 = Inr fs2" and
    r: "createEmptyDirs t dirs fs2 = Inr fs'"
    by (auto split: sum.splits)
  have "isDir fs2 q"
    using Cons.prems(2) ensureDirSync_isDir_mono [OF e] by (simp add: writeFileSync_isDir [OF w])
  then show ?case by (rule Cons.IH [OF r])
qed

lemma createEmptyDirs_result:
  "createEmptyDirs t dirs fs = Inr fs' \<Longrightarrow> d \<in> set dirs \<Longrightarrow>
     isDir fs' (join t d) \<and> fileAt fs' (join (join t d) ''.gitkeep'') = Some []"
proof (induction dirs arbitrary: fs)
  case Nil
  then show ?case by simp
next
  case (Cons x dirs)
  from Cons.prems(1) obtain fs1 fs2 where
    e: "ensureDirSync (join t x) fs = Inr fs1" and
    w: "writeFileSync (join (join t x) ''.gitkeep'') [] fs1 = Inr fs2" and
    r: "createEmptyDirs t dirs fs2 = Inr fs'"
    by (auto split: sum.splits)
  show ?case
  proof (cases "d = x")
    case True
    have "isDir fs2 (join t d)"
      using ensureDirSync_isDir [OF e] True by (simp add: writeFileSync_isDir [OF w])
    moreover have "fileAt fs2 (join (join t d) ''.gitkeep'') = Some []"
      using True by (simp add: writeFileSync_fileAt [OF w])
    ultimately show ?thesis
      using createEmptyDirs_isDir_mono [OF r] createEmptyDirs_keeps_empty_file [OF r] by blast
  next
    case False
    with Cons.prems(2) have "d \<in> set dirs" by simp
    then show ?thesis by (rule Cons.IH [OF r])
  qed
qed

lemma writeFiles_isDir_mono:
  "writeFiles t files fs = Inr fs' \<Longrightarrow> isDir fs q \<Longrightarrow> isDir fs' q"
proof (induction files arbitrary: fs)
  case Nil
  then show ?case by simp
next
  case (Cons f files)
  from Cons.prems(1) obtain fs1 fs2 where
    e: "ensureDirSync (dirname (join t (path f))) fs = Inr fs1" and
    w: "writeFileSync (join t (path f)) (content f) fs1 = Inr fs2" and
    r: "writeFiles t files fs2 = Inr fs'"
    by (auto split: sum.splits)
  have "isDir fs2 q"
    using Cons.prems(2) ensureDirSync_isDir_mono [OF e] by (simp add: writeFileSync_isDir [OF w])
  then show ?case by (rule Cons.IH [OF r])
qed

lemma writeFiles_other:
  "writeFiles t files fs = Inr fs' \<Longrightarrow> q \<notin> set (map (\<lambda>f. join t (path f)) files) \<Longrightarrow>
     fileAt fs' q = fileAt fs q"
proof (induction files arbitrary: fs)
  case Nil
  then show ?case by simp
next
  case (Cons f files)
  from Cons.prems(1) obtain fs1 fs2 where
    e: "ensureDirSync (dirname (join t (path f))) fs = Inr fs1" and
    w: "writeFileSync (join t (path f)) (content f) fs1 = Inr fs2" and
    r: "writeFiles t files fs2 = Inr fs'"
    by (auto split: sum.splits)
  have "fileAt fs' q = fileAt fs2 q"
    using Cons.IH [OF r] Cons.prems(2) by simp
  also have "\<dots> = fileAt fs q"
    using Cons.prems(2) by (simp add: writeFileSync_fileAt [OF w] ensureDirSync_fileAt [OF e])
  finally show ?case .
qed

lemma writeFiles_result:
  "writeFiles t files fs = Inr fs' \<Longrightarrow> distinct (map (\<lambda>f. join t (path f)) files) \<Longrightarrow>
     f \<in> set files \<Longrightarrow> fileAt fs' (join t (path f)) = Some (content f)"
proof (induction files arbitrary: fs)
  case Nil
  then show ?case by simp
next
  case (Cons x files)
  from Cons.prems(1) obtain fs1 fs2 where
    e: "ensureDirSync (dirname (join t (path x))) fs = Inr fs1" and
    w: "writeFileSync (join t (path x)) (content x) fs1 = Inr fs2" and
    r: "writeFiles t files fs2 = Inr fs'"
    by (auto split: sum.splits)
  show ?case
  proof (cases "f \<in> set files")
    case True
    then show ?thesis using Cons.IH [OF r] Cons.prems(2) by simp
  next
    case False
    with Cons.prems(3) have fx: "f = x" by simp
    have "join t (path x) \<notin> set (map (\<lambda>f. join t (path f)) files)"
      using Cons.prems(2) by simp
    then have "fileAt fs' (join t (path x)) = fileAt fs2 (join t (path x))"
      by (rule writeFiles_other [OF r])
    then show ?thesis using fx by (simp add: writeFileSync_fileAt [OF w])
  qed
qed

lemma fileAt_not_isDir: "fileAt fs p = Some c \<Longrightarrow> \<not> isDir fs p"
  by (auto simp: fileAt_def isDir_def split: option.splits node.splits)

subsection \<open>The paths of the manifest\<close>

lemma manifest_paths: "map path (getProjectStructure fixedText v) = manifestPaths"
  by (simp add: getProjectStructure_def manifestPaths_def Let_def)

lemma manifest_split:
  "map splitPath manifestPaths =
    [[''package.json''], [''tsconfig.json''], [''next.config.ts''], [''eslint.config.mjs''],
      [''postcss.config.mjs''], [''README.md''],
      [''src'', ''app'', ''layout.tsx''],
      [''src'', ''app'', ''providers.tsx''],
      [''src'', ''app'', ''page.tsx''],
      [''src'', ''styles'', ''globals.css''],
      [''src'', ''config'', ''routes.ts''],
      [''src'', ''config'', ''.env.example''],
      [''src'', ''proxy.ts''],
      [''src'', ''shared'', ''components'', ''CodeBlock.tsx''],
      [''src'', ''shared'', ''libs'', ''utils.ts''],
      [''src'', ''shared'', ''libs'', ''api.service.ts''],
      [''src'', ''shared'', ''hooks'', ''useFormWithZod.ts''],
      [''src'', ''shared'', ''utils'', ''checkTokenExpiration.ts''],
      [''src'', ''features'', ''auth'', ''auth.type.ts''],
      [''src'', ''features'', ''auth'', ''auth.api.ts''],
      [''src'', ''features'', ''auth'', ''auth.service.ts''],
      [''src'', ''features'', ''auth'', ''auth.validation.ts''],
      [''src'', ''features'', ''auth'', ''auth.store.ts''],
      [''src'', ''features'', ''auth'', ''hooks'', ''useAuth.ts''],
      [''src'', ''features'', ''auth'', ''components'', ''LoginForm.tsx''],
      [''.gitignore''],
      [''next-env.d.ts'']]"
  by (simp add: manifestPaths_def)

lemma emptyDirs_split:
  "map splitPath emptyDirs =
     [[''src'', ''shared'', ''constants''],
      [''src'', ''shared'', ''types''],
      [''src'', ''shared'', ''components'', ''shadcnUi''],
      [''src'', ''stores''],
      [''src'', ''tests'', ''e2e''],
      [''src'', ''tests'', ''unit'']]"
  by (simp add: emptyDirs_def)

lemma manifest_split_plain: "list_all (\<lambda>p. list_all plain (splitPath p)) manifestPaths"
proof -
  have "list_all (list_all plain) (map splitPath manifestPaths)"
    unfolding manifest_split by (simp add: plain_def)
  then show ?thesis by (simp add: list_all_iff)
qed

lemma manifest_split_distinct: "distinct (map splitPath manifestPaths)"
  unfolding manifest_split by simp

lemma emptyDirs_split_plain: "list_all (\<lambda>p. list_all plain (splitPath p)) emptyDirs"
proof -
  have "list_all (list_all plain) (map splitPath emptyDirs)"
    unfolding emptyDirs_split by (simp add: plain_def)
  then show ?thesis by (simp add: list_all_iff)
qed

lemma gitkeep_not_in_manifest:
  "list_all (\<lambda>d. d @ [''.gitkeep''] \<notin> set (map splitPath manifestPaths)) (map splitPath emptyDirs)"
  unfolding manifest_split emptyDirs_split by simp

lemma manifest_join:
  assumes "f \<in> set (getProjectStructure fixedText v)"
  shows "join t (path f) = normalizeOnto [] t @ splitPath (path f)"
proof -
  have "path f \<in> set manifestPaths"
    using assms manifest_paths [of fixedText v] by (metis image_eqI set_map)
  then have "list_all plain (splitPath (path f))"
    using manifest_split_plain by (simp add: list_all_iff)
  then show ?thesis by (rule join_plain)
qed

lemma manifest_joined:
  "map (\<lambda>f. join t (path f)) (getProjectStructure fixedText v)
     = map ((@) (normalizeOnto [] t)) (map splitPath manifestPaths)"
proof -
  have "map (\<lambda>f. join t (path f)) (getProjectStructure fixedText v)
          = map (\<lambda>f. normalizeOnto [] t @ splitPath (path f)) (getProjectStructure fixedText v)"
    by (rule map_cong [OF refl]) (rule manifest_join)
  also have "\<dots> = map (\<lambda>p. normalizeOnto [] t @ splitPath p)
                      (map path (getProjectStructure fixedText v))"
    by (simp add: comp_def)
  finally show ?thesis by (simp add: manifest_paths comp_def)
qed

lemma distinct_map_append: "distinct xs \<Longrightarrow> distinct (map ((@) p) xs)"
  by (induction xs) auto

lemma manifest_joined_distinct:
  "distinct (map (\<lambda>f. join t (path f)) (getProjectStructure fixedText v))"
  unfolding manifest_joined by (rule distinct_map_append [OF manifest_split_distinct])

lemma emptyDir_join:
  assumes "d \<in> set emptyDirs"
  shows "join t d = normalizeOnto [] t @ splitPath d"
    and "join (join t d) ''.gitkeep'' = normalizeOnto [] t @ splitPath d @ [''.gitkeep'']"
proof -
  have "list_all plain (splitPath d)"
    using assms emptyDirs_split_plain by (simp add: list_all_iff)
  then show j: "join t d = normalizeOnto [] t @ splitPath d" by (rule join_plain)
  have "join (join t d) ''.gitkeep'' = join t d @ splitPath ''.gitkeep''"
    by (rule join_wfPath [OF join_wf]) (simp add: plain_def)
  then show "join (join t d) ''.gitkeep'' = normalizeOnto [] t @ splitPath d @ [''.gitkeep'']"
    using j by simp
qed

lemma gitkeep_not_manifest_path:
  assumes "d \<in> set emptyDirs"
  shows "join (join t d) ''.gitkeep'' \<notin> set (map (\<lambda>f. join t (path f)) (getProjectStructure fixedText v))"
proof -
  have "splitPath d @ [''.gitkeep''] \<notin> set (map splitPath manifestPaths)"
    using assms gitkeep_not_in_manifest by (simp add: list_all_iff)
  then show ?thesis
    unfolding manifest_joined emptyDir_join(2) [OF assms] by auto
qed

lemma createProjectStructure_steps:
  assumes "createProjectStructure fixedText t v fs = Inr fs'"
  obtains fs1 fs2 where
    "createEmptyDirs t emptyDirs fs = Inr fs1"
    "ensureDirSync (join t ''public'') fs1 = Inr fs2"
    "writeFiles t (getProjectStructure fixedText v) fs2 = Inr fs'"
  using assms unfolding createProjectStructure_def by (auto split: sum.splits)

lemma createProjectStructure_files:
  assumes "createProjectStructure fixedText t v fs = Inr fs'"
    and "f \<in> set (getProjectStructure fixedText v)"
  shows "fileAt fs' (join t (path f)) = Some (content f)"
proof -
  from assms(1) obtain fs2 where "writeFiles t (getProjectStructure fixedText v) fs2 = Inr fs'"
    by (rule createProjectStructure_steps)
  then show ?thesis
    using manifest_joined_distinct assms(2) by (rule writeFiles_result)
qed

lemma createProjectStructure_emptyDirs:
  assumes "createProjectStructure fixedText t v fs = Inr fs'"
    and "d \<in> set emptyDirs"
  shows "isDir fs' (join t d) \<and> fileAt fs' (join (join t d) ''.gitkeep'') = Some []"
proof -
  from assms(1) obtain fs1 fs2 where
    c: "createEmptyDirs t emptyDirs fs = Inr fs1" and
    e: "ensureDirSync (join t ''public'') fs1 = Inr fs2" and
    w: "writeFiles t (getProjectStructure fixedText v) fs2 = Inr fs'"
    by (rule createProjectStructure_steps)
  from createEmptyDirs_result [OF c assms(2)] have
    d1: "isDir fs1 (join t d)" and k1: "fileAt fs1 (join (join t d) ''.gitkeep'') = Some []"
    by simp_all
  have "isDir fs' (join t d)"
    using d1 ensureDirSync_isDir_mono [OF e] writeFiles_isDir_mono [OF w] by blast
  moreover have "fileAt fs' (join (join t d) ''.gitkeep'') = Some []"
    using k1 writeFiles_other [OF w gitkeep_not_manifest_path [OF assms(2)]]
    by (simp add: ensureDirSync_fileAt [OF e])
  ultimately show ?thesis by simp
qed

subsection \<open>Operations below a directory act on its subtree\<close>


lemma lookup_Cons_SomeD:
  assumes "lookup fs (c # cs) = Some s"
  obtains es n where "fs = Dir es" "map_of es c = Some n" "lookup n cs = Some s"
  using assms by (cases fs) (auto split: option.splits)

lemma putNode_existing:
  "lookup fs t = Some s \<Longrightarrow>
     \<exists>fs'. putNode t s' fs = Inr fs' \<and> lookup fs' t = Some s'
           \<and> (\<forall>s''. putNode t s'' fs' = putNode t s'' fs)"
proof (induction t arbitrary: fs)
  case Nil
  then show ?case by simp
next
  case (Cons c cs)
  from Cons.prems obtain es n where
    fs: "fs = Dir es" and c: "map_of es c = Some n" and n: "lookup n cs = Some s"
    by (rule lookup_Cons_SomeD)
  from Cons.IH [OF n] obtain n' where
    n': "putNode cs s' n = Inr n'" "lookup n' cs = Some s'"
        "\<And>s''. putNode cs s'' n' = putNode cs s'' n"
    by blast
  show ?case
    using fs c n' by (simp add: update_conv' split: sum.splits)
qed

lemma putNode_same: "lookup fs t = Some s \<Longrightarrow> putNode t s fs = Inr fs"
proof (induction t arbitrary: fs)
  case Nil
  then show ?case by simp
next
  case (Cons c cs)
  from Cons.prems obtain es n where
    fs: "fs = Dir es" and c: "map_of es c = Some n" and n: "lookup n cs = Some s"
    by (rule lookup_Cons_SomeD)
  show ?case using fs c Cons.IH [OF n] by (simp add: update_triv)
qed

lemma ensureDirSync_local:
  "lookup fs t = Some s \<Longrightarrow>
     ensureDirSync (t @ q) fs =
       (case ensureDirSync q s of Inl e \<Rightarrow> Inl e | Inr s' \<Rightarrow> putNode t s' fs)"
proof (induction t arbitrary: fs)
  case Nil
  then show ?case by (simp split: sum.splits)
next
  case (Cons c cs)
  from Cons.prems obtain es n where
    fs: "fs = Dir es" and c: "map_of es c = Some n" and n: "lookup n cs = Some s"
    by (rule lookup_Cons_SomeD)
  show ?case using fs c Cons.IH [OF n] by (simp split: sum.splits)
qed

lemma writeFileSync_local:
  "lookup fs t = Some s \<Longrightarrow>
     writeFileSync (t @ q) d fs =
       (case writeFileSync q d s of Inl e \<Rightarrow> Inl e | Inr s' \<Rightarrow> putNode t s' fs)"
proof (induction t arbitrary: fs)
  case Nil
  then show ?case by (simp split: sum.splits)
next
  case (Cons c cs)
  from Cons.prems obtain es n where
    fs: "fs = Dir es" and c: "map_of es c = Some n" and n: "lookup n cs = Some s"
    by (rule lookup_Cons_SomeD)
  show ?case using fs c Cons.IH [OF n] by (simp split: sum.splits)
qed

text \<open>
  One step of a loop: an operation that acts on the subtree, followed by the rest of the
  loop, which does so too.
\<close>

lemma local_step:
  assumes s: "lookup fs t = Some s"
    and op: "op = (case op0 of Inl e \<Rightarrow> Inl e | Inr s' \<Rightarrow> putNode t s' fs)"
    and rest: "\<And>fs1 s1. lookup fs1 t = Some s1 \<Longrightarrow>
                 k fs1 = (case k0 s1 of Inl e \<Rightarrow> Inl e | Inr s' \<Rightarrow> putNode t s' fs1)"
  shows "(case op of Inl e \<Rightarrow> Inl e | Inr fs1 \<Rightarrow> k fs1)
           = (case (case op0 of Inl e \<Rightarrow> Inl e | Inr s1 \<Rightarrow> k0 s1) of
                Inl e \<Rightarrow> Inl e | Inr s' \<Rightarrow> putNode t s' fs)"
proof (cases op0)
  case (Inl e)
  then show ?thesis using op by simp
next
  case (Inr s1)
  from putNode_existing [OF s, of s1] obtain fs1 where
    fs1: "putNode t s1 fs = Inr fs1" "lookup fs1 t = Some s1"
         "\<And>s''. putNode t s'' fs1 = putNode t s'' fs"
    by blast
  show ?thesis
    using Inr op fs1 rest [OF fs1(2)] by (simp split: sum.splits)
qed

lemma createEmptyDirs_local:
  assumes "list_all (\<lambda>d. list_all plain (splitPath d)) dirs"
    and "lookup fs (normalizeOnto [] t) = Some s"
  shows "createEmptyDirs t dirs fs =
           (case createEmptyDirs [] dirs s of
              Inl e \<Rightarrow> Inl e | Inr s' \<Rightarrow> putNode (normalizeOnto [] t) s' fs)"
  using assms
proof (induction dirs arbitrary: fs s)
  case Nil
  then show ?case by (simp add: putNode_same)
next
  case (Cons d dirs)
  let ?P = "normalizeOnto [] t"
  from Cons.prems(1) have pd: "list_all plain (splitPath d)"
    and pr: "list_all (\<lambda>d. list_all plain (splitPath d)) dirs" by simp_all
  have j: "join t d = ?P @ splitPath d" "join [] d = splitPath d"
    using pd by (simp_all add: join_plain)
  have g: "join (?P @ splitPath d) ''.gitkeep'' = ?P @ splitPath d @ [''.gitkeep'']"
          "join (splitPath d) ''.gitkeep'' = splitPath d @ [''.gitkeep'']"
    using join_wfPath [OF join_wf, of "''.gitkeep''" t d]
          join_wfPath [OF join_wf, of "''.gitkeep''" "[]" d] j
    by (simp_all add: plain_def)
  show ?case
    unfolding createEmptyDirs.simps j g
  proof (rule local_step [OF Cons.prems(2)], goal_cases)
    case 1
    show ?case by (rule ensureDirSync_local [OF Cons.prems(2)])
  next
    case (2 fs1 s1)
    show ?case
    proof (rule local_step [OF 2], goal_cases)
      case 1
      show ?case by (rule writeFileSync_local [OF 2])
    next
      case (2 fs2 s2)
      show ?case by (rule Cons.IH [OF pr 2])
    qed
  qed
qed

lemma writeFiles_local:
  assumes "list_all (\<lambda>f. list_all plain (splitPath (path f))) files"
    and "lookup fs (normalizeOnto [] t) = Some s"
  shows "writeFiles t files fs =
           (case writeFiles [] files s of
              Inl e \<Rightarrow> Inl e | Inr s' \<Rightarrow> putNode (normalizeOnto [] t) s' fs)"
  using assms
proof (induction files arbitrary: fs s)
  case Nil
  then show ?case by (simp add: putNode_same)
next
  case (Cons f files)
  let ?P = "normalizeOnto [] t"
  from Cons.prems(1) have pd: "list_all plain (splitPath (path f))"
    and pr: "list_all (\<lambda>f. list_all plain (splitPath (path f))) files" by simp_all
  have ne: "splitPath (path f) \<noteq> []" by (cases "path f") (auto split: list.splits)
  have j: "join t (path f) = ?P @ splitPath (path f)" "join [] (path f) = splitPath (path f)"
    using pd by (simp_all add: join_plain)
  have d: "dirname (?P @ splitPath (path f)) = ?P @ dirname (splitPath (path f))"
    using ne by (simp add: dirname_def butlast_append)
  show ?case
    unfolding writeFiles.simps j d
  proof (rule local_step [OF Cons.prems(2)], goal_cases)
    case 1
    show ?case by (rule ensureDirSync_local [OF Cons.prems(2)])
  next
    case (2 fs1 s1)
    show ?case
    proof (rule local_step [OF 2], goal_cases)
      case 1
      show ?case by (rule writeFileSync_local [OF 2])
    next
      case (2 fs2 s2)
      show ?case by (rule Cons.IH [OF pr 2])
    qed
  qed
qed

lemma manifest_entries_plain:
  "list_all (\<lambda>f. list_all plain (splitPath (path f))) (getProjectStructure fixedText v)"
proof -
  have "list_all (\<lambda>p. list_all plain (splitPath p)) (map path (getProjectStructure fixedText v))"
    unfolding manifest_paths by (rule manifest_split_plain)
  then show ?thesis by (simp add: list_all_iff)
qed

lemma createProjectStructure_local:
  assumes "lookup fs (normalizeOnto [] t) = Some s"
  shows "createProjectStructure fixedText t v fs =
           (case createProjectStructure fixedText [] v s of
              Inl e \<Rightarrow> Inl e | Inr s' \<Rightarrow> putNode (normalizeOnto [] t) s' fs)"
  unfolding createProjectStructure_def
proof (rule local_step [OF assms], goal_cases)
  case 1
  show ?case by (rule createEmptyDirs_local [OF emptyDirs_split_plain assms])
next
  case (2 fs1 s1)
  have j: "join t ''public'' = normalizeOnto [] t @ [''public'']" "join [] ''public'' = [''public'']"
    by (simp_all add: join_plain plain_def)
  show ?case
    unfolding j
  proof (rule local_step [OF 2], goal_cases)
    case 1
    show ?case by (rule ensureDirSync_local [OF 2])
  next
    case (2 fs2 s2)
    show ?case by (rule writeFiles_local [OF manifest_entries_plain 2])
  qed
qed

lemma ensureDirSync_existing: "isDir fs p \<Longrightarrow> ensureDirSync p fs = Inr fs"
proof (induction p arbitrary: fs)
  case Nil
  then show ?case by (cases fs) auto
next
  case (Cons c cs)
  then show ?case
    by (cases fs) (auto simp: update_triv split: option.splits)
qed

lemma isDir_lookup: "lookup fs p = Some (Dir es) \<Longrightarrow> isDir fs p"
  by (simp add: isDir_def)

lemma normalizeOnto_wfPath: "wfPath t \<Longrightarrow> normalizeOnto [] t = t"
  by (simp add: wfPath_def normalizeOnto_plain)

text \<open>
  On a target that exists, the result of \<open>copyTemplates\<close> below the target is a function of
  what was there, of the template directory and of the variables.
\<close>

lemma copyTemplates_subtree:
  assumes wf: "wfPath t"
    and t1: "lookup fs1 t = Some (Dir es)" and t2: "lookup fs2 t = Some (Dir es)"
    and tpl: "lookup fs1 tpl = lookup fs2 tpl"
    and run: "copyTemplates fixedText tpl t v fs1 = Inr fs1'"
  shows "\<exists>fs2'. copyTemplates fixedText tpl t v fs2 = Inr fs2' \<and> lookup fs2' t = lookup fs1' t"
proof -
  have e1: "ensureDirSync t fs1 = Inr fs1" and e2: "ensureDirSync t fs2 = Inr fs2"
    using t1 t2 by (simp_all add: ensureDirSync_existing isDir_lookup)
  have ex: "existsSync fs1 tpl = existsSync fs2 tpl"
    using tpl by (simp add: existsSync_def)
  show ?thesis
  proof (cases "existsSync fs1 tpl")
    case True
    then obtain sn where sn: "lookup fs1 tpl = Some sn" by (auto simp: existsSync_def)
    have c1: "copySync templateFilter tpl t fs1 = Inr fs1'"
      using run e1 True by (simp add: copyTemplates_def)
    have c2: "copyTemplates fixedText tpl t v fs2 = copySync templateFilter tpl t fs2"
      using e2 True ex by (simp add: copyTemplates_def)
    show ?thesis
    proof (cases "templateFilter (pathString tpl)")
      case False
      with c1 sn have "fs1' = fs1"
        by (auto simp: copySync_def t1 split: if_splits)
      moreover from c1 sn False have "copySync templateFilter tpl t fs2 = Inr fs2"
        using tpl by (auto simp: copySync_def t1 t2 split: if_splits)
      ultimately show ?thesis using c2 t1 t2 by simp
    next
      case True
      from c1 sn True obtain n' where
        n': "copyItem templateFilter tpl sn (Some (Dir es)) = Inr n'" and p1: "putNode t n' fs1 = Inr fs1'"
        by (auto simp: copySync_def t1 split: if_splits sum.splits)
      from putNode_existing [OF t1, of n'] p1 have l1: "lookup fs1' t = Some n'" by auto
      from putNode_existing [OF t2, of n'] obtain fs2' where
        p2: "putNode t n' fs2 = Inr fs2'" and l2: "lookup fs2' t = Some n'" by blast
      from c1 sn True have "copySync templateFilter tpl t fs2 = Inr fs2'"
        using tpl n' p2 by (auto simp: copySync_def t1 t2 split: if_splits)
      then show ?thesis using c2 l1 l2 by simp
    qed
  next
    case False
    have P: "normalizeOnto [] t = t" using wf by (rule normalizeOnto_wfPath)
    have r1: "createProjectStructure fixedText t v fs1 = Inr fs1'"
      using run e1 False by (simp add: copyTemplates_def)
    have c2: "copyTemplates fixedText tpl t v fs2 = createProjectStructure fixedText t v fs2"
      using e2 False ex by (simp add: copyTemplates_def)
    from r1 obtain s' where
      s': "createProjectStructure fixedText [] v (Dir es) = Inr s'" and p1: "putNode t s' fs1 = Inr fs1'"
      using createProjectStructure_local [of fs1 t "Dir es" fixedText v] t1 P
      by (auto split: sum.splits)
    from putNode_existing [OF t1, of s'] p1 have l1: "lookup fs1' t = Some s'" by auto
    from putNode_existing [OF t2, of s'] obtain fs2' where
      p2: "putNode t s' fs2 = Inr fs2'" and l2: "lookup fs2' t = Some s'" by blast
    have "createProjectStructure fixedText t v fs2 = Inr fs2'"
      using createProjectStructure_local [of fs2 t "Dir es" fixedText v] t2 P s' p2 by simp
    then show ?thesis using c2 l1 l2 by simp
  qed
qed

subsection \<open>Substrings\<close>

lemma str_includes_iff: "str_includes s needle \<longleftrightarrow> (\<exists>a b. s = a @ needle @ b)"
proof (induction s)
  case Nil
  then show ?case by simp
next
  case (Cons c s)
  show ?case
  proof
    assume "str_includes (c # s) needle"
    then consider "prefix needle (c # s)" | "str_includes s needle" by auto
    then show "\<exists>a b. c # s = a @ needle @ b"
    proof cases
      case 1
      then obtain b where "c # s = needle @ b" by (auto simp: prefix_def)
      then have "c # s = [] @ needle @ b" by simp
      then show ?thesis by blast
    next
      case 2
      with Cons.IH obtain a b where "s = a @ needle @ b" by blast
      then have "c # s = (c # a) @ needle @ b" by simp
      then show ?thesis by blast
    qed
  next
    assume "\<exists>a b. c # s = a @ needle @ b"
    then obtain a b where ab: "c # s = a @ needle @ b" by blast
    show "str_includes (c # s) needle"
    proof (cases a)
      case Nil
      with ab have "prefix needle (c # s)" by (simp add: prefix_def)
      then show ?thesis by simp
    next
      case (Cons x a')
      with ab have "s = a' @ needle @ b" by simp
      with Cons.IH have "str_includes s needle" by blast
      then show ?thesis by simp
    qed
  qed
qed

lemma str_includes_appendI: "str_includes s needle \<Longrightarrow> str_includes (x @ s @ y) needle"
proof -
  assume "str_includes s needle"
  then obtain a b where "s = a @ needle @ b" unfolding str_includes_iff by blast
  then have "x @ s @ y = (x @ a) @ needle @ (b @ y)" by simp
  then show ?thesis unfolding str_includes_iff by blast
qed



lemma pathString_slash: "\<exists>y. pathString p = CHR ''/'' # y"
  by (induction p rule: pathString.induct) auto



lemma str_includes_refl: "str_includes s s"
  unfolding str_includes_iff by (metis append_Nil append_Nil2)

subsection \<open>The recursive copy\<close>

lemma fileAtOpt_simps [simp]:
  "fileAtOpt None rel = None" "fileAtOpt (Some n) rel = fileAt n rel"
  by (simp_all add: fileAtOpt_def)




subsection \<open>The template copy and its filter\<close>










subsection \<open>UTF-8 text\<close>

lemma of_char_eq_iff: "((of_char b :: nat) = of_char c) = (b = c)"
  by (metis char_of_char)

lemma lead_bytes:
  "((of_char b :: nat) = 0xE0) = (b = CHR 0xE0)"
  "((of_char b :: nat) = 0xED) = (b = CHR 0xED)"
  "((of_char b :: nat) = 0xF0) = (b = CHR 0xF0)"
  "((of_char b :: nat) = 0xF4) = (b = CHR 0xF4)"
  using of_char_eq_iff [of b "CHR 0xE0"] of_char_eq_iff [of b "CHR 0xED"]
    of_char_eq_iff [of b "CHR 0xF0"] of_char_eq_iff [of b "CHR 0xF4"]
  by simp_all

text \<open>Well-formed text is what the decoder leaves as it is.\<close>

lemma utf8Decode_valid:
  "validUtf8 s \<Longrightarrow> utf8Decode 0 0x80 0xBF [] s = s"
proof (induction s rule: validUtf8.induct)
  case 1
  then show ?case by simp
next
  case (2 b bs)
  show ?case
  proof (cases "inRange 0x00 0x7F b")
    case True
    then show ?thesis using 2 by (simp add: inRange_def)
  next
    case a: False
    show ?thesis
    proof (cases "inRange 0xC2 0xDF b")
      case True
      from "2.prems" a True obtain c1 r where bs: "bs = c1 # r" by (cases bs) auto
      show ?thesis
        using "2.IH"(2) [OF a True bs] "2.prems" a True bs by (simp add: inRange_def)
    next
      case b2: False
      show ?thesis
      proof (cases "inRange 0xE0 0xEF b")
        case True
        from "2.prems" a b2 True obtain c1 c2 r where bs: "bs = c1 # c2 # r"
          by (cases bs; cases "tl bs") auto
        show ?thesis
          using "2.IH"(3) [OF a b2 True bs] "2.prems" a b2 True bs
          by (simp add: inRange_def lead_bytes)
      next
        case b3: False
        show ?thesis
        proof (cases "inRange 0xF0 0xF4 b")
          case True
          from "2.prems" a b2 b3 True obtain c1 c2 c3 r where bs: "bs = c1 # c2 # c3 # r"
            by (cases bs; cases "tl bs"; cases "tl (tl bs)") auto
          show ?thesis
            using "2.IH"(4) [OF a b2 b3 True bs] "2.prems" a b2 b3 True bs
            by (simp add: inRange_def lead_bytes)
        next
          case False
          then show ?thesis using 2 a b2 b3 by simp
        qed
      qed
    qed
  qed
qed

lemma utf8Text_valid: "validUtf8 s \<Longrightarrow> utf8Text s = s"
  by (simp add: utf8Text_def utf8Decode_valid)

lemma validUtf8_ascii: "list_all isAscii s \<Longrightarrow> validUtf8 s"
  by (induction s) (simp_all add: isAscii_def inRange_def)

lemma validUtf8_append: "validUtf8 a \<Longrightarrow> validUtf8 b \<Longrightarrow> validUtf8 (a @ b)"
proof (induction a rule: validUtf8.induct)
  case 1
  then show ?case by simp
next
  case (2 c cs)
  show ?case
  proof (cases "inRange 0x00 0x7F c")
    case True
    then show ?thesis using 2 by simp
  next
    case a: False
    show ?thesis
    proof (cases "inRange 0xC2 0xDF c")
      case True
      then show ?thesis using 2 a by (cases cs) simp_all
    next
      case b2: False
      show ?thesis
      proof (cases "inRange 0xE0 0xEF c")
        case True
        from "2.prems"(1) a b2 True obtain c1 c2 r where cs: "cs = c1 # c2 # r"
          by (cases cs; cases "tl cs") auto
        show ?thesis using "2.IH"(3) [OF a b2 True cs] "2.prems" a b2 True cs by simp
      next
        case b3: False
        show ?thesis
        proof (cases "inRange 0xF0 0xF4 c")
          case True
          from "2.prems"(1) a b2 b3 True obtain c1 c2 c3 r where cs: "cs = c1 # c2 # c3 # r"
            by (cases cs; cases "tl cs"; cases "tl (tl cs)") auto
          show ?thesis using "2.IH"(4) [OF a b2 b3 True cs] "2.prems" a b2 b3 True cs by simp
        next
          case False
          then show ?thesis using 2 a b2 b3 by simp
        qed
      qed
    qed
  qed
qed

lemma validUtf8_textLines: "list_all validUtf8 ls \<Longrightarrow> validUtf8 (textLines ls)"
proof (induction ls)
  case Nil
  then show ?case by (simp add: textLines_def)
next
  case (Cons l ls)
  have split: "textLines (l # ls) = l @ ([CHR 0x0A] @ textLines ls)" by (simp add: textLines_def)
  have "validUtf8 ([CHR 0x0A] @ textLines ls)" using Cons by (simp add: inRange_def)
  with Cons.prems show ?case unfolding split by (simp add: validUtf8_append)
qed

lemma validUtf8_readme:
  assumes "validUtf8 n" and "validUtf8 i" and "validUtf8 d"
  shows "validUtf8 (readme n i d)"
  unfolding readme_def
  by (rule validUtf8_textLines) (simp add: assms inRange_def)

lemma validUtf8_manifest_commands:
  "validUtf8 (manifestInstallCmd pm)" "validUtf8 (manifestDevCmd pm)"
  by (simp_all add: manifestInstallCmd_def manifestDevCmd_def inRange_def)

text \<open>What the decoder does to bytes that are not UTF-8.\<close>

lemma utf8Text_ill_formed:
  "utf8Text [CHR ''a'', CHR 0xFF, CHR ''b''] = [CHR ''a'', CHR 0xEF, CHR 0xBF, CHR 0xBD, CHR ''b'']"
  "utf8Text [CHR 0xE2, CHR 0x82] = [CHR 0xEF, CHR 0xBF, CHR 0xBD]"
  "utf8Text [CHR 0xC3, CHR 0xA9] = [CHR 0xC3, CHR 0xA9]"
  by (simp_all add: utf8Text_def replacementCharacter_def)

subsection \<open>Replacing a token\<close>

lemma getSubstitution_plain:
  "CHR ''$'' \<notin> set r \<Longrightarrow> getSubstitution m b a r = r"
  by (induction m b a r rule: getSubstitution.induct) auto

lemma replaceFrom_no_occurrence:
  "\<not> str_includes s token \<Longrightarrow> replaceFrom token r before s = s"
  by (induction s arbitrary: before) auto

lemma prefix_token_segment:
  assumes "prefix token (seg @ token @ rest)" and "seg \<noteq> []"
  shows "prefix token (seg @ butlast token)"
proof (cases "token = []")
  case True
  then show ?thesis by simp
next
  case False
  then have "token = butlast token @ [last token]" by simp
  then have "seg @ token @ rest = (seg @ butlast token) @ last token # rest"
    by (metis append.assoc append_Cons append_Nil)
  then have "prefix (seg @ butlast token) (seg @ token @ rest)" by (metis prefixI)
  moreover have "length token \<le> length (seg @ butlast token)"
    using assms(2) False by (cases seg) auto
  ultimately show ?thesis using assms(1) by (rule prefix_length_prefix [rotated])
qed

lemma replaceFrom_segment:
  assumes "token \<noteq> []" and "\<not> str_includes (seg @ butlast token) token"
  shows "replaceFrom token r before (seg @ token @ rest)
           = seg @ getSubstitution token (before @ seg) rest r
             @ replaceFrom token r (before @ seg @ token) rest"
  using assms(2)
proof (induction seg arbitrary: before)
  case Nil
  from assms(1) obtain c tk where token: "token = c # tk" by (cases token) auto
  have "replaceFrom token r before (c # tk @ rest)
          = getSubstitution token before (drop (length token) (c # tk @ rest)) r
            @ replaceFrom token r (before @ token) (drop (length token) (c # tk @ rest))"
    using token by simp
  then show ?case using token by simp
next
  case (Cons x seg)
  from Cons.prems have np: "\<not> prefix token (x # seg @ butlast token)"
    and ni: "\<not> str_includes (seg @ butlast token) token" by simp_all
  have "\<not> prefix token ((x # seg) @ token @ rest)"
    using np prefix_token_segment [of token "x # seg" rest] by auto
  then have "replaceFrom token r before ((x # seg) @ token @ rest)
               = x # replaceFrom token r (before @ [x]) (seg @ token @ rest)" by simp
  then show ?case using Cons.IH [OF ni, of "before @ [x]"] by simp
qed

lemma replaceFrom_joinWith:
  assumes "token \<noteq> []" and "CHR ''$'' \<notin> set r"
    and "list_all (\<lambda>seg. \<not> str_includes (seg @ butlast token) token) segs"
  shows "replaceFrom token r before (joinWith token segs) = joinWith r segs"
  using assms(3)
proof (induction segs arbitrary: before)
  case Nil
  then show ?case by simp
next
  case (Cons s ss)
  then have s: "\<not> str_includes (s @ butlast token) token"
    and rest: "list_all (\<lambda>seg. \<not> str_includes (seg @ butlast token) token) ss" by simp_all
  show ?case
  proof (cases ss)
    case Nil
    have "\<not> str_includes s token"
      using s str_includes_appendI [of s token "[]" "butlast token"] by auto
    then show ?thesis using Nil by (simp add: replaceFrom_no_occurrence)
  next
    case more: (Cons v va)
    then show ?thesis
      using replaceFrom_segment [OF assms(1) s, of r before "joinWith token ss"]
            Cons.IH [OF rest, of "before @ s @ token"]
      by (simp add: getSubstitution_plain [OF assms(2)])
  qed
qed

lemma replaceAll_joinWith:
  assumes "token \<noteq> []" and "CHR ''$'' \<notin> set r"
    and "list_all (\<lambda>seg. \<not> str_includes (seg @ butlast token) token) segs"
  shows "replaceAll token r (joinWith token segs) = joinWith r segs"
  unfolding replaceAll_def using assms by (rule replaceFrom_joinWith)

text \<open>Every text is made of segments with the token between each two.\<close>

lemma segments_nonempty: "segments token seg s \<noteq> []"
  by (induction token seg s rule: segments.induct) auto

lemma joinWith_Cons: "ss \<noteq> [] \<Longrightarrow> joinWith sep (s # ss) = s @ sep @ joinWith sep ss"
  by (cases ss) simp_all

lemma joinWith_segments: "joinWith token (segments token seg s) = seg @ s"
proof (induction token seg s rule: segments.induct)
  case (1 token seg)
  then show ?case by simp
next
  case (2 token seg c s)
  show ?case
  proof (cases "token \<noteq> [] \<and> prefix token (c # s)")
    case True
    then have "c # s = token @ drop (length token) (c # s)"
      by (metis append_eq_conv_conj prefixE)
    then show ?thesis
      using True 2(1) [OF True] segments_nonempty [of token "[]" "drop (length token) (c # s)"]
      by (simp add: joinWith_Cons)
  next
    case False
    then show ?thesis using 2(2) [OF False] by auto
  qed
qed

lemma str_includes_append_cases:
  "str_includes (seg @ t) token
     \<longleftrightarrow> (\<exists>b. suffix b seg \<and> b \<noteq> [] \<and> prefix token (b @ t)) \<or> str_includes t token"
proof (induction seg)
  case Nil
  then show ?case by simp
next
  case (Cons x seg)
  show ?case
  proof
    assume "str_includes ((x # seg) @ t) token"
    then consider "prefix token (x # seg @ t)" | "str_includes (seg @ t) token" by auto
    then show "(\<exists>b. suffix b (x # seg) \<and> b \<noteq> [] \<and> prefix token (b @ t)) \<or> str_includes t token"
    proof cases
      case 1
      then have "suffix (x # seg) (x # seg) \<and> x # seg \<noteq> [] \<and> prefix token ((x # seg) @ t)" by simp
      then show ?thesis by blast
    next
      case 2
      with Cons.IH show ?thesis by (auto simp: suffix_Cons)
    qed
  next
    assume "(\<exists>b. suffix b (x # seg) \<and> b \<noteq> [] \<and> prefix token (b @ t)) \<or> str_includes t token"
    then show "str_includes ((x # seg) @ t) token"
      using Cons.IH by (auto simp: suffix_Cons)
  qed
qed

lemma str_includes_length: "str_includes s token \<Longrightarrow> length token \<le> length s"
  unfolding str_includes_iff by auto

lemma butlast_no_token: "token \<noteq> [] \<Longrightarrow> \<not> str_includes (butlast token) token"
  using str_includes_length [of "butlast token" token] by (cases token) auto

lemma segments_clean:
  assumes "token \<noteq> []" and "borderFree token"
    and "\<forall>b. suffix b seg \<and> b \<noteq> [] \<longrightarrow> \<not> prefix token (b @ s)"
  shows "list_all (\<lambda>seg. \<not> str_includes (seg @ butlast token) token) (segments token seg s)"
  using assms
proof (induction token seg s rule: segments.induct)
  case (1 token seg)
  have "\<not> prefix token (b @ butlast token)" if b: "suffix b seg" "b \<noteq> []" for b
  proof
    assume p: "prefix token (b @ butlast token)"
    from 1(3) b have "\<not> prefix token b" by simp
    with p obtain us where us: "token = b @ us" "prefix us (butlast token)"
      by (auto simp: prefix_append)
    with \<open>\<not> prefix token b\<close> have "us \<noteq> []" by auto
    moreover have "suffix us token" using us(1) by (simp add: suffix_def)
    moreover have "us \<in> set (prefixes (butlast token))" using us(2) by simp
    ultimately show False using 1(2) by (auto simp: borderFree_def list_all_iff)
  qed
  then show ?case
    using butlast_no_token [OF 1(1)] by (auto simp: str_includes_append_cases)
next
  case (2 token seg c s)
  show ?case
  proof (cases "token \<noteq> [] \<and> prefix token (c # s)")
    case True
    let ?rest = "drop (length token) (c # s)"
    from True have split: "c # s = token @ ?rest"
      by (metis append_eq_conv_conj prefixE)
    have "\<not> prefix token (b @ butlast token)" if b: "suffix b seg" "b \<noteq> []" for b
    proof
      assume p: "prefix token (b @ butlast token)"
      have "token = butlast token @ [last token]" using True by simp
      then have "b @ c # s = (b @ butlast token) @ last token # ?rest"
        using split by (metis append.assoc append_Cons append_Nil)
      then have "prefix (b @ butlast token) (b @ c # s)" by (metis prefixI)
      with p have "prefix token (b @ c # s)" by (rule prefix_order.trans)
      with "2.prems"(3) b show False by simp
    qed
    then have first: "\<not> str_includes (seg @ butlast token) token"
      using butlast_no_token [of token] True by (auto simp: str_includes_append_cases)
    have "list_all (\<lambda>seg. \<not> str_includes (seg @ butlast token) token) (segments token [] ?rest)"
      by (rule "2.IH"(1) [OF True "2.prems"(1,2)]) simp
    with first True show ?thesis by simp
  next
    case False
    have "\<not> prefix token (b @ s)" if b: "suffix b (seg @ [c])" "b \<noteq> []" for b
    proof -
      from b obtain zs where zs: "b = zs @ [c]" "suffix zs seg" by auto
      show ?thesis
      proof (cases "zs = []")
        case True
        then show ?thesis using zs(1) False "2.prems"(1) by simp
      next
        case nonempty: False
        with "2.prems"(3) zs(2) have "\<not> prefix token (zs @ c # s)" by simp
        then show ?thesis using zs(1) by simp
      qed
    qed
    then have "\<forall>b. suffix b (seg @ [c]) \<and> b \<noteq> [] \<longrightarrow> \<not> prefix token (b @ s)" by blast
    from "2.IH"(2) [OF False "2.prems"(1,2) this] False show ?thesis by auto
  qed
qed

lemma tokens_borderFree: "borderFree projectNameToken" "borderFree packageManagerToken"
  by (simp_all add: borderFree_def projectNameToken_def packageManagerToken_def suffix_to_prefix)

lemma token_segments:
  assumes "token \<noteq> []" and "borderFree token"
  shows "\<exists>segs. c = joinWith token segs
           \<and> list_all (\<lambda>seg. \<not> str_includes (seg @ butlast token) token) segs"
proof -
  have "list_all (\<lambda>seg. \<not> str_includes (seg @ butlast token) token) (segments token [] c)"
    by (rule segments_clean [OF assms]) simp
  moreover have "c = joinWith token (segments token [] c)" by (simp add: joinWith_segments)
  ultimately show ?thesis by blast
qed

text \<open>A dollar pattern in the replacement is expanded: \<^verbatim>\<open>$&\<close> puts the token back.\<close>

lemma replaceAll_dollar_pattern:
  \<open>replaceAll projectNameToken ''$&'' ''{ "name": "{{projectName}}" }''
     = ''{ "name": "{{projectName}}" }''\<close>
  \<open>replaceAll projectNameToken ''a$$b'' ''{ "name": "{{projectName}}" }'' = ''{ "name": "a$b" }''\<close>
  by (simp_all add: replaceAll_def projectNameToken_def)

lemma replaceAll_no_occurrence:
  "\<not> str_includes s token \<Longrightarrow> replaceAll token r s = s"
  by (simp add: replaceAll_def replaceFrom_no_occurrence)

subsection \<open>The substitution pass\<close>

lemma writeFileSync_existing:
  "fileAt fs p = Some c \<Longrightarrow> \<exists>fs'. writeFileSync p d fs = Inr fs'"
proof (induction p arbitrary: fs)
  case Nil
  then show ?case by (cases fs) auto
next
  case (Cons x xs)
  then show ?case
    by (cases fs) (fastforce split: option.splits)+
qed

lemma rewriteFile_result:
  assumes "\<not> isDir fs p"
  shows "\<exists>fs'. rewriteFile p f fs = Inr fs'
           \<and> (\<forall>q. fileAt fs' q = (if q = p then map_option (\<lambda>c. f (utf8Text c)) (fileAt fs p)
                                   else fileAt fs q))
           \<and> (\<forall>q. isDir fs' q = isDir fs q)"
proof (cases "lookup fs p")
  case None
  then show ?thesis by (simp add: rewriteFile_def existsSync_def fileAt_def)
next
  case (Some n)
  with assms obtain c where n: "n = File c" by (cases n) (auto simp: isDir_def)
  with Some have c: "fileAt fs p = Some c" by (simp add: fileAt_def)
  from writeFileSync_existing [OF c] obtain fs' where
    w: "writeFileSync p (f (utf8Text c)) fs = Inr fs'" by blast
  have "rewriteFile p f fs = Inr fs'"
    using Some n w by (simp add: rewriteFile_def existsSync_def readFileSync_def)
  then show ?thesis
    using writeFileSync_fileAt [OF w] writeFileSync_isDir [OF w] c by auto
qed

lemma generateFiles_paths:
  "join p ''package.json'' = normalizeOnto [] p @ [''package.json'']"
  "join p ''README.md'' = normalizeOnto [] p @ [''README.md'']"
  by (simp_all add: join_plain plain_def)

lemma generateFiles_result:
  assumes "\<not> isDir fs (join p ''package.json'')" and "\<not> isDir fs (join p ''README.md'')"
  shows "\<exists>fs'. generateFiles p v fs = Inr fs'
           \<and> fileAt fs' (join p ''package.json'')
               = map_option (\<lambda>c. substitutePackageJson v (utf8Text c)) (fileAt fs (join p ''package.json''))
           \<and> fileAt fs' (join p ''README.md'')
               = map_option (\<lambda>c. substituteReadme v (utf8Text c)) (fileAt fs (join p ''README.md''))
           \<and> (\<forall>q. q \<noteq> join p ''package.json'' \<longrightarrow> q \<noteq> join p ''README.md'' \<longrightarrow>
                  fileAt fs' q = fileAt fs q)
           \<and> (\<forall>q. isDir fs' q = isDir fs q)"
proof -
  have ne: "join p ''README.md'' \<noteq> join p ''package.json''"
    by (simp add: generateFiles_paths)
  from rewriteFile_result [OF assms(1), of "substitutePackageJson v"] obtain fs1 where
    r1: "rewriteFile (join p ''package.json'') (substitutePackageJson v) fs = Inr fs1" and
    f1: "\<And>q. fileAt fs1 q = (if q = join p ''package.json''
                                then map_option (\<lambda>c. substitutePackageJson v (utf8Text c)) (fileAt fs (join p ''package.json''))
                                else fileAt fs q)" and
    d1: "\<And>q. isDir fs1 q = isDir fs q"
    by blast
  have "\<not> isDir fs1 (join p ''README.md'')" using assms(2) d1 by simp
  from rewriteFile_result [OF this, of "substituteReadme v"] obtain fs2 where
    r2: "rewriteFile (join p ''README.md'') (substituteReadme v) fs1 = Inr fs2" and
    f2: "\<And>q. fileAt fs2 q = (if q = join p ''README.md''
                                then map_option (\<lambda>c. substituteReadme v (utf8Text c)) (fileAt fs1 (join p ''README.md''))
                                else fileAt fs1 q)" and
    d2: "\<And>q. isDir fs2 q = isDir fs1 q"
    by blast
  have "generateFiles p v fs = Inr fs2"
    using r1 r2 by (simp add: generateFiles_def)
  moreover have "fileAt fs2 (join p ''package.json'')
      = map_option (\<lambda>c. substitutePackageJson v (utf8Text c)) (fileAt fs (join p ''package.json''))"
    using ne by (simp add: f1 f2)
  moreover have "fileAt fs2 (join p ''README.md'')
      = map_option (\<lambda>c. substituteReadme v (utf8Text c)) (fileAt fs (join p ''README.md''))"
    using ne by (simp add: f1 f2)
  moreover have "\<forall>q. q \<noteq> join p ''package.json'' \<longrightarrow> q \<noteq> join p ''README.md'' \<longrightarrow>
                  fileAt fs2 q = fileAt fs q"
    by (simp add: f1 f2)
  moreover have "\<forall>q. isDir fs2 q = isDir fs q" by (simp add: d1 d2)
  ultimately show ?thesis by blast
qed

subsection \<open>Materialization on an empty target\<close>

lemma ensureDirSync_fresh:
  "lookup fs p = None \<Longrightarrow> ensureDirSync p fs = Inr fs' \<Longrightarrow> lookup fs' p = Some (Dir [])"
proof (induction p arbitrary: fs fs')
  case Nil
  then show ?case by simp
next
  case (Cons c cs)
  show ?case
  proof (cases fs)
    case (File d)
    with Cons.prems show ?thesis by simp
  next
    case (Dir es)
    let ?child = "case map_of es c of None \<Rightarrow> Dir [] | Some n \<Rightarrow> n"
    from Cons.prems Dir obtain n' where
      n': "ensureDirSync cs ?child = Inr n'" and fs': "fs' = Dir (AList.update c n' es)"
      by (auto split: sum.splits)
    have "lookup n' cs = Some (Dir [])"
    proof (cases "lookup ?child cs")
      case None
      from Cons.IH [OF None n'] show ?thesis .
    next
      case (Some a)
      with Cons.prems(1) Dir have "map_of es c = None" by (auto split: option.splits)
      with Some have "cs = []" by (cases cs) auto
      with n' \<open>map_of es c = None\<close> show ?thesis by auto
    qed
    then show ?thesis using fs' by (simp add: update_conv')
  qed
qed

lemma createProjectStructure_empty:
  "\<exists>tree. createProjectStructure fixedText [] v (Dir []) = Inr tree"
  by (simp add: createProjectStructure_def emptyDirs_def getProjectStructure_def join_def dirname_def)

lemma createProjectStructure_fresh:
  assumes "lookup fs (normalizeOnto [] t) = Some (Dir [])"
  shows "\<exists>fs'. createProjectStructure fixedText t v fs = Inr fs'"
proof -
  from createProjectStructure_empty obtain tree where
    "createProjectStructure fixedText [] v (Dir []) = Inr tree" by blast
  moreover from putNode_existing [OF assms, of tree] obtain fs' where
    "putNode (normalizeOnto [] t) tree fs = Inr fs'" by blast
  ultimately show ?thesis
    using createProjectStructure_local [OF assms, of fixedText v] by simp
qed

lemma readme_entry:
  "\<lparr>path = ''README.md'',
    content = readme (projectName v) (manifestInstallCmd (packageManager v))
                (manifestDevCmd (packageManager v))\<rparr> \<in> set (getProjectStructure fixedText v)"
  by (simp add: getProjectStructure_def Let_def)

lemma packageJson_entry:
  "\<lparr>path = ''package.json'', content = stringify (packageJson (projectName v))\<rparr>
     \<in> set (getProjectStructure fixedText v)"
  by (simp add: getProjectStructure_def Let_def)

text \<open>Materialization from the manifest followed by substitution, on a new target.\<close>

lemma manifest_then_substitution:
  assumes c: "createProjectStructure fixedText t v fs = Inr fs1"
  shows "\<exists>fs2. generateFiles t v fs1 = Inr fs2
           \<and> fileAt fs2 (join t ''package.json'')
               = Some (substitutePackageJson v (utf8Text (stringify (packageJson (projectName v)))))
           \<and> fileAt fs2 (join t ''README.md'')
               = Some (substituteReadme v
                   (utf8Text (readme (projectName v) (manifestInstallCmd (packageManager v))
                      (manifestDevCmd (packageManager v)))))
           \<and> (\<forall>d \<in> set emptyDirs. fileAt fs2 (join (join t d) ''.gitkeep'') = Some [])"
proof -
  have pj: "fileAt fs1 (join t ''package.json'') = Some (stringify (packageJson (projectName v)))"
    using createProjectStructure_files [OF c packageJson_entry] by simp
  have rd: "fileAt fs1 (join t ''README.md'')
              = Some (readme (projectName v) (manifestInstallCmd (packageManager v))
                        (manifestDevCmd (packageManager v)))"
    using createProjectStructure_files [OF c readme_entry] by simp
  from generateFiles_result [OF fileAt_not_isDir [OF pj] fileAt_not_isDir [OF rd], of v]
  obtain fs2 where
    g: "generateFiles t v fs1 = Inr fs2" and
    g1: "fileAt fs2 (join t ''package.json'')
           = map_option (\<lambda>c. substitutePackageJson v (utf8Text c)) (fileAt fs1 (join t ''package.json''))" and
    g2: "fileAt fs2 (join t ''README.md'')
           = map_option (\<lambda>c. substituteReadme v (utf8Text c)) (fileAt fs1 (join t ''README.md''))" and
    other: "\<And>q. q \<noteq> join t ''package.json'' \<Longrightarrow> q \<noteq> join t ''README.md'' \<Longrightarrow>
                  fileAt fs2 q = fileAt fs1 q"
    by blast
  have "fileAt fs2 (join (join t d) ''.gitkeep'') = Some []" if d: "d \<in> set emptyDirs" for d
  proof -
    have k: "join (join t d) ''.gitkeep'' = normalizeOnto [] t @ splitPath d @ [''.gitkeep'']"
      by (rule emptyDir_join(2) [OF d])
    have "join (join t d) ''.gitkeep'' \<noteq> join t ''package.json''"
         "join (join t d) ''.gitkeep'' \<noteq> join t ''README.md''"
      unfolding k generateFiles_paths by simp_all
    from other [OF this] show ?thesis
      using createProjectStructure_emptyDirs [OF c d] by simp
  qed
  with g g1 g2 pj rd show ?thesis by simp
qed

subsection \<open>The examples\<close>

lemma example_copy:
  "copyTemplates fixedText [''tpl''] [''out''] v exampleTemplateFs = Inr exampleCopied"
  by (simp add: copyTemplates_def copySync_def existsSync_def exampleTemplateFs_def
        exampleTemplates_def exampleCopied_def templateFilter_def)

lemma example_substitution:
  "generateFiles [''out''] exampleVariables exampleCopied = Inr exampleSubstituted"
  by (simp add: generateFiles_def rewriteFile_def existsSync_def readFileSync_def join_def
        utf8Text_def substitutePackageJson_def substituteReadme_def replaceAll_def
        projectNameToken_def packageManagerToken_def exampleCopied_def exampleSubstituted_def
        exampleVariables_def)

subsection \<open>A run on a new project directory\<close>

lemma projectPathOf_wf: "normalizeOnto [] (projectPathOf env options) = projectPathOf env options"
  unfolding projectPathOf_def by (rule normalizeOnto_wfPath [OF join_wf])

lemma scaffold_new_project:
  assumes new: "lookup fs (projectPathOf env options) = None"
    and made: "ensureDirSync (projectPathOf env options) fs = Inr fs1"
    and none: "lookup fs1 (templatesPathOf env) = None"
  shows "\<exists>fs1' fs2.
           createProjectStructure fixedText (projectPathOf env options) (variablesOf options) fs1
             = Inr fs1'
           \<and> generateFiles (projectPathOf env options) (variablesOf options) fs1' = Inr fs2
           \<and> scaffold env fixedText options fs = Inr fs2
           \<and> fileAt fs2 (join (projectPathOf env options) ''README.md'')
               = Some (substituteReadme (variablesOf options)
                   (utf8Text (readme (projectName options) (manifestInstallCmd (packageManager options))
                      (manifestDevCmd (packageManager options)))))"
proof -
  let ?P = "projectPathOf env options" and ?v = "variablesOf options"
  have "lookup fs1 (normalizeOnto [] ?P) = Some (Dir [])"
    using ensureDirSync_fresh [OF new made] by (simp add: projectPathOf_wf)
  from createProjectStructure_fresh [OF this] obtain fs1' where
    c: "createProjectStructure fixedText ?P ?v fs1 = Inr fs1'" by blast
  from manifest_then_substitution [OF c] obtain fs2 where
    g: "generateFiles ?P ?v fs1' = Inr fs2" and
    r: "fileAt fs2 (join ?P ''README.md'')
          = Some (substituteReadme ?v
              (utf8Text (readme (projectName ?v) (manifestInstallCmd (packageManager ?v))
                 (manifestDevCmd (packageManager ?v)))))"
    by blast
  have "copyTemplates fixedText (templatesPathOf env) ?P ?v fs = Inr fs1'"
    using made none c by (simp add: copyTemplates_def existsSync_def)
  then have "scaffold env fixedText options fs = Inr fs2"
    using g by (simp add: scaffold_def)
  with c g r show ?thesis by (simp add: variablesOf_def)
qed

lemma new_project_not_declined:
  assumes "lookup fs (projectPathOf env options) = None"
  shows "\<not> declined env options fs" and "removeExisting env options fs = (fs, [])"
  using assms by (simp_all add: declined_def removeExisting_def existsSync_def)

lemma action_new_project:
  assumes new: "lookup fs (projectPathOf env (chosenOptions env arg cli)) = None"
    and made: "ensureDirSync (projectPathOf env (chosenOptions env arg cli)) fs = Inr fs1"
    and none: "lookup fs1 (templatesPathOf env) = None"
  shows "\<exists>fs' events. action env fixedText arg cli fs = Completed fs' events"
proof -
  let ?o = "chosenOptions env arg cli"
  from scaffold_new_project [OF new made none] obtain fs2 where
    "scaffold env fixedText ?o fs = Inr fs2" by blast
  then show ?thesis
    using new_project_not_declined [OF new]
    by (simp add: action_def createProject_def split: prod.splits)
qed

lemma example_interactive:
  "chosenOptions exampleEnv None interactive
     = \<lparr>projectName = ''demo-app'', packageManager = ''pnpm'',
        skipPrompts = False, autoInstall = True\<rparr>"
  by (simp add: chosenOptions_def interactive_def exampleEnv_def truthy_def trim_def
        isWhiteSpace_def)

lemma example_defaults:
  "chosenOptions exampleEnv None acceptDefaults
     = \<lparr>projectName = ''my-nextjs-app'', packageManager = ''npm'',
        skipPrompts = True, autoInstall = False\<rparr>"
  by (simp add: chosenOptions_def acceptDefaults_def truthy_def)

lemma example_paths:
  "projectPathOf exampleEnv (chosenOptions exampleEnv None interactive) = [''home'', ''demo-app'']"
  "projectPathOf exampleEnv (chosenOptions exampleEnv None acceptDefaults)
     = [''home'', ''my-nextjs-app'']"
  "templatesPathOf exampleEnv = [''pkg'', ''templates'']"
  unfolding projectPathOf_def templatesPathOf_def example_interactive example_defaults
  by (simp_all add: exampleEnv_def join_def)

lemma example_new_project:
  "lookup exampleHome [''home'', ''demo-app''] = None"
  "ensureDirSync [''home'', ''demo-app''] exampleHome = Inr (Dir [(''home'', Dir [(''demo-app'', Dir [])])])"
  "lookup (Dir [(''home'', Dir [(''demo-app'', Dir [])])]) [''pkg'', ''templates''] = None"
  "lookup exampleHome [''home'', ''my-nextjs-app''] = None"
  "ensureDirSync [''home'', ''my-nextjs-app''] exampleHome
     = Inr (Dir [(''home'', Dir [(''my-nextjs-app'', Dir [])])])"
  "lookup (Dir [(''home'', Dir [(''my-nextjs-app'', Dir [])])]) [''pkg'', ''templates''] = None"
  by (simp_all add: exampleHome_def)

lemma removeExisting_no_exec:
  "removeExisting env options fs = (fs0, removed) \<Longrightarrow> filter isExec removed = []"
  by (auto simp: removeExisting_def split: if_splits)

lemma no_exec_events:
  "filter isExec (snd (removeExisting env options fs)) = []"
  "filter isExec (nextSteps options) = []"
  by (simp_all add: removeExisting_def nextSteps_def)

subsection \<open>Where no placeholder token can be\<close>

lemma str_includes_set: "str_includes s token \<Longrightarrow> set token \<subseteq> set s"
  unfolding str_includes_iff by auto

lemma no_brace_substituteReadme:
  assumes "CHR ''{'' \<notin> set s"
  shows "substituteReadme v s = s"
proof -
  have "\<not> str_includes s projectNameToken" "\<not> str_includes s packageManagerToken"
    using assms str_includes_set [of s projectNameToken] str_includes_set [of s packageManagerToken]
    by (auto simp: projectNameToken_def packageManagerToken_def)
  then show ?thesis by (simp add: substituteReadme_def replaceAll_no_occurrence)
qed

lemma textLines_set:
  "c \<in> set (textLines ls) \<longleftrightarrow> (c = CHR 0x0A \<and> ls \<noteq> []) \<or> (\<exists>l \<in> set ls. c \<in> set l)"
  by (induction ls) (auto simp: textLines_def)

lemma textLines_includes: "l \<in> set ls \<Longrightarrow> str_includes (textLines ls) l"
proof (induction ls)
  case Nil
  then show ?case by simp
next
  case (Cons x ls)
  have split: "textLines (x # ls) = x @ [CHR 0x0A] @ textLines ls" by (simp add: textLines_def)
  show ?case
  proof (cases "l = x")
    case True
    then show ?thesis
      unfolding split using str_includes_appendI [OF str_includes_refl, of "[]" x] by simp
  next
    case False
    with Cons have "str_includes (textLines ls) l" by simp
    then show ?thesis
      unfolding split using str_includes_appendI [of "textLines ls" l "x @ [CHR 0x0A]" "[]"]
      by simp
  qed
qed

lemma readme_brace:
  "CHR ''{'' \<in> set (readme n i d)
     \<longleftrightarrow> CHR ''{'' \<in> set n \<or> CHR ''{'' \<in> set i \<or> CHR ''{'' \<in> set d"
  unfolding readme_def textLines_set by simp

lemma readme_includes:
  "str_includes (readme n i d) i" "str_includes (readme n i d) d"
  unfolding readme_def by (rule textLines_includes, simp)+

lemma manifest_commands_fallback:
  assumes "pm \<notin> set supportedPackageManagers"
  shows "manifestInstallCmd pm = ''bun install''" "manifestDevCmd pm = ''bun run dev''"
    "getInstallCommand pm = None" "getRunCommand pm script = None"
  using assms
  by (simp_all add: supportedPackageManagers_def manifestInstallCmd_def manifestDevCmd_def
        getInstallCommand_def getRunCommand_def)

lemma manifest_commands_supported:
  assumes "pm \<in> set supportedPackageManagers"
  shows "getInstallCommand pm = Some (manifestInstallCmd pm)"
    "getRunCommand pm ''dev'' = Some (manifestDevCmd pm)"
    "CHR ''{'' \<notin> set (manifestInstallCmd pm)" "CHR ''{'' \<notin> set (manifestDevCmd pm)"
  using assms
  by (auto simp: supportedPackageManagers_def manifestInstallCmd_def manifestDevCmd_def
        getInstallCommand_def getRunCommand_def)

subsection \<open>A package manager outside the four\<close>

lemma unrecognized_run:
  assumes flag: "packageManagerFlag cli = Some pm" "pm \<noteq> []"
    and un: "pm \<notin> set supportedPackageManagers"
    and opts: "opts = chosenOptions env projectNameArg cli"
    and new: "lookup fs (projectPathOf env opts) = None"
    and made: "ensureDirSync (projectPathOf env opts) fs = Inr fs1"
    and none: "lookup fs1 (templatesPathOf env) = None"
  shows "packageManager opts = pm"
    and "\<exists>fs' events.
           action env fixedText projectNameArg cli fs = Completed fs' events
           \<and> fileAt fs' (join (projectPathOf env opts) ''README.md'')
               = Some (substituteReadme (variablesOf opts)
                   (utf8Text (readme (projectName opts) ''bun install'' ''bun run dev'')))"
proof -
  show pm: "packageManager opts = pm"
    using flag opts by (simp add: chosenOptions_def truthy_def)
  from scaffold_new_project [OF new made none, of fixedText] obtain fs2 where
    s: "scaffold env fixedText opts fs = Inr fs2" and
    r: "fileAt fs2 (join (projectPathOf env opts) ''README.md'')
          = Some (substituteReadme (variablesOf opts)
              (utf8Text (readme (projectName opts) ''bun install'' ''bun run dev'')))"
    using manifest_commands_fallback(1,2) [OF un] pm by auto
  have i: "installDependencies env pm (projectPathOf env opts) fs2
             = (fs2, [SpinnerStart (''Installing dependencies with '' @ pm @ ''...''),
                      ExecSync None (projectPathOf env opts),
                      SpinnerFail ''Dependencies installation failed (you can install manually)'',
                      ConsoleLog ''  Run: undefined''])"
    using manifest_commands_fallback(3) [OF un]
    by (simp add: installDependencies_def runInstaller_def interpolate_def)
  have "\<exists>events. createProject env fixedText opts fs = Inr (fs2, events)"
    using new_project_not_declined [OF new] s i pm
    by (simp add: createProject_def)
  then show "\<exists>fs' events.
           action env fixedText projectNameArg cli fs = Completed fs' events
           \<and> fileAt fs' (join (projectPathOf env opts) ''README.md'')
               = Some (substituteReadme (variablesOf opts)
                   (utf8Text (readme (projectName opts) ''bun install'' ''bun run dev'')))"
    using r opts by (auto simp: action_def)
qed

lemma example_bad_flag:
  "chosenOptions exampleEnv (Some ''app'') exampleBadFlag
     = \<lparr>projectName = ''app'', packageManager = ''pip'', skipPrompts = True, autoInstall = False\<rparr>"
  "projectPathOf exampleEnv (chosenOptions exampleEnv (Some ''app'') exampleBadFlag) = [''home'', ''app'']"
  "lookup exampleHome [''home'', ''app''] = None"
  "ensureDirSync [''home'', ''app''] exampleHome = Inr (Dir [(''home'', Dir [(''app'', Dir [])])])"
  "lookup (Dir [(''home'', Dir [(''app'', Dir [])])]) [''pkg'', ''templates''] = None"
  by (simp_all add: chosenOptions_def exampleBadFlag_def truthy_def projectPathOf_def
        exampleEnv_def join_def exampleHome_def)

lemma example_bad_flag_run:
  "packageManagerFlag exampleBadFlag = Some ''pip''"
  "lookup exampleHome (projectPathOf exampleEnv (chosenOptions exampleEnv (Some ''app'') exampleBadFlag))
     = None"
  "ensureDirSync (projectPathOf exampleEnv (chosenOptions exampleEnv (Some ''app'') exampleBadFlag))
     exampleHome = Inr (Dir [(''home'', Dir [(''app'', Dir [])])])"
  "lookup (Dir [(''home'', Dir [(''app'', Dir [])])]) (templatesPathOf exampleEnv) = None"
  unfolding example_bad_flag(2) example_paths(3)
  by (simp_all add: example_bad_flag(3,4,5)) (simp add: exampleBadFlag_def)

lemma example_bad_readme:
  "substituteReadme v (readme ''app'' ''bun install'' ''bun run dev'')
     = readme ''app'' ''bun install'' ''bun run dev''"
  "substituteReadme v (utf8Text (readme ''app'' ''bun install'' ''bun run dev''))
     = readme ''app'' ''bun install'' ''bun run dev''"
proof -
  have "validUtf8 (readme ''app'' ''bun install'' ''bun run dev'')"
    by (rule validUtf8_readme) (simp_all add: inRange_def)
  then have "utf8Text (readme ''app'' ''bun install'' ''bun run dev'')
               = readme ''app'' ''bun install'' ''bun run dev''"
    by (rule utf8Text_valid)
  moreover show "substituteReadme v (readme ''app'' ''bun install'' ''bun run dev'')
                   = readme ''app'' ''bun install'' ''bun run dev''"
    by (rule no_brace_substituteReadme) (simp add: readme_brace)
  ultimately show "substituteReadme v (utf8Text (readme ''app'' ''bun install'' ''bun run dev''))
                     = readme ''app'' ''bun install'' ''bun run dev''"
    by simp
qed

subsection \<open>The package descriptor of a valid name\<close>

lemma quoteChar_nameChar: "c \<in> set nameChars \<Longrightarrow> quoteChar c = [c]"
  by (auto simp: nameChars_def quoteChar_def)

lemma quoteJSONString_name:
  assumes "list_all (\<lambda>c. c \<in> set nameChars) s"
  shows "quoteJSONString s = CHR 0x22 # s @ [CHR 0x22]"
proof -
  have "concat (map quoteChar s) = s"
    using assms by (induction s) (simp_all add: quoteChar_nameChar)
  then show ?thesis by (simp add: quoteJSONString_def)
qed

lemma nameChars_no_brace: "list_all (\<lambda>c. c \<in> set nameChars) s \<Longrightarrow> CHR ''{'' \<notin> set s"
  by (induction s) (auto simp: nameChars_def)

lemma packageJson_text:
  \<open>stringify (packageJson name)
     = ''{'' @ [CHR 0x0A] @ ''  "name": '' @ quoteJSONString name
       @ '','' @ [CHR 0x0A] @ stringifyMembers ''  '' packageJsonFixed @ [CHR 0x0A] @ ''}''\<close>
proof -
  have "packageJsonFixed \<noteq> []" by (simp add: packageJsonFixed_def)
  then show ?thesis
    by (simp add: stringify_def packageJson_def quoteJSONString_def quoteChar_def)
qed

lemma double_brace_append:
  "str_includes (x @ y) ''{{''
     \<longleftrightarrow> str_includes x ''{{'' \<or> str_includes y ''{{''
         \<or> (x \<noteq> [] \<and> last x = CHR ''{'' \<and> y \<noteq> [] \<and> hd y = CHR ''{'')"
proof (induction x)
  case Nil
  then show ?case by simp
next
  case (Cons c x)
  show ?case
  proof (cases x)
    case Nil
    then show ?thesis by (cases y) (auto simp: prefix_Cons)
  next
    case (Cons d x')
    then show ?thesis using Cons.IH by (auto simp: prefix_Cons)
  qed
qed

lemma no_brace_no_double: "CHR ''{'' \<notin> set s \<Longrightarrow> \<not> str_includes s ''{{''"
  using str_includes_set [of s "''{{''"] by auto

lemma fixed_members_no_double: "\<not> str_includes (stringifyMembers ''  '' packageJsonFixed) ''{{''"
  by (simp add: packageJsonFixed_def quoteJSONString_def quoteChar_def)

lemma str_includes_token_prefix: "str_includes s (a @ b) \<Longrightarrow> str_includes s a"
  unfolding str_includes_iff by (metis append.assoc)

lemma nameChars_valid: "list_all (\<lambda>c. c \<in> set nameChars) s \<Longrightarrow> validUtf8 s"
proof (rule validUtf8_ascii)
  assume "list_all (\<lambda>c. c \<in> set nameChars) s"
  then show "list_all isAscii s"
    by (induction s) (auto simp: nameChars_def isAscii_def)
qed

lemma fixed_members_valid: "validUtf8 (stringifyMembers ''  '' packageJsonFixed)"
  by (simp add: packageJsonFixed_def quoteJSONString_def quoteChar_def inRange_def)

lemma packageJson_valid:
  assumes "list_all (\<lambda>c. c \<in> set nameChars) name"
  shows "validUtf8 (stringify (packageJson name))"
proof -
  have "validUtf8 (stringifyMembers ''  '' packageJsonFixed @ [CHR 0x0A] @ ''}'')"
    by (rule validUtf8_append [OF fixed_members_valid]) (simp add: inRange_def)
  then have "validUtf8 (CHR 0x22 # '','' @ [CHR 0x0A] @ stringifyMembers ''  '' packageJsonFixed
                          @ [CHR 0x0A] @ ''}'')"
    by (simp add: inRange_def)
  from validUtf8_append [OF nameChars_valid [OF assms] this] show ?thesis
    unfolding packageJson_text quoteJSONString_name [OF assms] by (simp add: inRange_def)
qed

lemma packageJson_no_token:
  assumes "list_all (\<lambda>c. c \<in> set nameChars) name"
  shows "substitutePackageJson v (stringify (packageJson name)) = stringify (packageJson name)"
proof -
  have nb: "\<not> str_includes name ''{{''"
    using nameChars_no_brace [OF assms] by (rule no_brace_no_double)
  have "\<not> str_includes (stringify (packageJson name)) ''{{''"
    unfolding packageJson_text quoteJSONString_name [OF assms]
    using nb fixed_members_no_double nameChars_no_brace [OF assms]
    by (auto simp: double_brace_append prefix_Cons)
  then have "\<not> str_includes (stringify (packageJson name)) projectNameToken"
    using str_includes_token_prefix [of _ "''{{''" "''projectName}}''"]
    by (auto simp: projectNameToken_def)
  then show ?thesis by (simp add: substitutePackageJson_def replaceAll_no_occurrence)
qed

lemma packageJson_name_field:
  assumes "list_all (\<lambda>c. c \<in> set nameChars) name"
  shows \<open>prefix (''{'' @ [CHR 0x0A] @ ''  "name": "'' @ name @ ''",'') (stringify (packageJson name))\<close>
  unfolding packageJson_text quoteJSONString_name [OF assms] by simp

lemma manifestContent_two:
  "manifestContent fixedText v ''package.json'' = Some (stringify (packageJson (projectName v)))"
  "manifestContent fixedText v ''README.md''
     = Some (readme (projectName v) (manifestInstallCmd (packageManager v))
               (manifestDevCmd (packageManager v)))"
  by (simp_all add: manifestContent_def getProjectStructure_def Let_def)

lemma valid_manifest_tree:
  assumes name: "matchesNamePattern (projectName v)"
    and pm: "packageManager v \<in> set supportedPackageManagers"
    and c: "createProjectStructure fixedText t v fs = Inr fs1"
    and g: "generateFiles t v fs1 = Inr fs2"
  shows "fileAt fs2 (join t ''package.json'') = Some (stringify (packageJson (projectName v)))"
    and "fileAt fs2 (join t ''README.md'')
           = Some (readme (projectName v) (manifestInstallCmd (packageManager v))
                     (manifestDevCmd (packageManager v)))"
    and "d \<in> set emptyDirs \<Longrightarrow>
           isDir fs2 (join t d) \<and> fileAt fs2 (join (join t d) ''.gitkeep'') = Some []"
proof -
  from name have chars: "list_all (\<lambda>c. c \<in> set nameChars) (projectName v)"
    by (simp add: matchesNamePattern_def)
  from manifest_then_substitution [OF c] g have
    p: "fileAt fs2 (join t ''package.json'')
          = Some (substitutePackageJson v (utf8Text (stringify (packageJson (projectName v)))))" and
    r: "fileAt fs2 (join t ''README.md'')
          = Some (substituteReadme v
              (utf8Text (readme (projectName v) (manifestInstallCmd (packageManager v))
                 (manifestDevCmd (packageManager v)))))" and
    k: "\<And>d. d \<in> set emptyDirs \<Longrightarrow> fileAt fs2 (join (join t d) ''.gitkeep'') = Some []"
    by auto
  have rv: "utf8Text (readme (projectName v) (manifestInstallCmd (packageManager v))
                        (manifestDevCmd (packageManager v)))
              = readme (projectName v) (manifestInstallCmd (packageManager v))
                  (manifestDevCmd (packageManager v))"
    by (intro utf8Text_valid validUtf8_readme nameChars_valid [OF chars]
          validUtf8_manifest_commands)
  show "fileAt fs2 (join t ''package.json'') = Some (stringify (packageJson (projectName v)))"
    using p
    by (simp add: packageJson_no_token [OF chars] utf8Text_valid [OF packageJson_valid [OF chars]])
  have "CHR ''{'' \<notin> set (readme (projectName v) (manifestInstallCmd (packageManager v))
                             (manifestDevCmd (packageManager v)))"
    using nameChars_no_brace [OF chars] manifest_commands_supported(3,4) [OF pm]
    by (simp add: readme_brace)
  then show "fileAt fs2 (join t ''README.md'')
           = Some (readme (projectName v) (manifestInstallCmd (packageManager v))
                     (manifestDevCmd (packageManager v)))"
    using r by (simp add: rv no_brace_substituteReadme)
  show "isDir fs2 (join t d) \<and> fileAt fs2 (join (join t d) ''.gitkeep'') = Some []"
    if d: "d \<in> set emptyDirs"
  proof -
    have pj: "fileAt fs1 (join t ''package.json'') = Some (stringify (packageJson (projectName v)))"
      using createProjectStructure_files [OF c packageJson_entry] by simp
    have rd: "fileAt fs1 (join t ''README.md'')
                = Some (readme (projectName v) (manifestInstallCmd (packageManager v))
                          (manifestDevCmd (packageManager v)))"
      using createProjectStructure_files [OF c readme_entry] by simp
    from generateFiles_result [OF fileAt_not_isDir [OF pj] fileAt_not_isDir [OF rd], of v] g
    have "isDir fs2 (join t d) = isDir fs1 (join t d)" by auto
    then show ?thesis
      using createProjectStructure_emptyDirs [OF c d] k [OF d] by simp
  qed
qed

section \<open>The claims\<close>

subsection \<open>The command tables\<close>

text \<open>
  C5. On each of the four supported package managers \<open>getInstallCommand\<close> and
  \<open>getRunCommand\<close> return a defined, non-empty string; the four install commands are the
  expected literals and pairwise distinct, and so are the four run commands for any script.
  In particular \<open>pnpm\<close> gives \<open>pnpm install\<close> and, for the script \<open>dev\<close>, \<open>pnpm dev\<close>.
\<close>

theorem command_tables_total_distinct:
  "map getInstallCommand supportedPackageManagers =
     [Some ''npm install'', Some ''pnpm install'', Some ''yarn install'', Some ''bun install'']
   \<and> distinct (map getInstallCommand supportedPackageManagers)
   \<and> map (\<lambda>pm. getRunCommand pm script) supportedPackageManagers =
     [Some (''npm run '' @ script), Some (''pnpm '' @ script),
      Some (''yarn '' @ script), Some (''bun run '' @ script)]
   \<and> distinct (map (\<lambda>pm. getRunCommand pm script) supportedPackageManagers)
   \<and> None \<notin> set (map getInstallCommand supportedPackageManagers)
   \<and> Some [] \<notin> set (map getInstallCommand supportedPackageManagers)
   \<and> None \<notin> set (map (\<lambda>pm. getRunCommand pm script) supportedPackageManagers)
   \<and> Some [] \<notin> set (map (\<lambda>pm. getRunCommand pm script) supportedPackageManagers)
   \<and> getInstallCommand ''pnpm'' = Some ''pnpm install''
   \<and> getRunCommand ''pnpm'' ''dev'' = Some ''pnpm dev''"
  by (simp add: supportedPackageManagers_def getInstallCommand_def getRunCommand_def)

subsection \<open>Materialization from the manifest\<close>

text \<open>
  C4. When \<open>createProjectStructure\<close> succeeds, every file of the manifest is under the
  target directory with exactly the content the manifest gives it, and every directory of
  \<open>emptyDirs\<close> exists and holds an empty \<^verbatim>\<open>.gitkeep\<close> file.
\<close>

theorem manifest_materialized:
  assumes "createProjectStructure fixedText targetPath variables fs = Inr fs'"
  shows "(\<forall>file \<in> set (getProjectStructure fixedText variables).
            fileAt fs' (join targetPath (path file)) = Some (content file))
       \<and> (\<forall>dir \<in> set emptyDirs.
            isDir fs' (join targetPath dir)
            \<and> fileAt fs' (join (join targetPath dir) ''.gitkeep'') = Some [])"
  using createProjectStructure_files [OF assms] createProjectStructure_emptyDirs [OF assms]
  by blast

theorem manifest_materialized_witness:
  "\<exists>fs'. createProjectStructure id [''out''] exampleVariables (Dir [(''out'', Dir [])]) = Inr fs'
         \<and> fileAt fs' [''out'', ''package.json''] = Some (stringify (packageJson ''demo-app''))
         \<and> isDir fs' [''out'', ''src'', ''stores'']
         \<and> fileAt fs' [''out'', ''src'', ''stores'', ''.gitkeep''] = Some []"
proof -
  have "lookup (Dir [(''out'', Dir [])]) (normalizeOnto [] [''out'']) = Some (Dir [])" by simp
  from createProjectStructure_fresh [OF this] obtain fs' where
    run: "createProjectStructure id [''out''] exampleVariables (Dir [(''out'', Dir [])]) = Inr fs'"
    by blast
  have f: "\<lparr>path = ''package.json'', content = stringify (packageJson ''demo-app'')\<rparr>
             \<in> set (getProjectStructure id exampleVariables)"
    using packageJson_entry [of exampleVariables id] by (simp add: exampleVariables_def)
  have d: "''src/stores'' \<in> set emptyDirs" by (simp add: emptyDirs_def)
  from manifest_materialized [OF run] f d have
    "fileAt fs' (join [''out''] ''package.json'') = Some (stringify (packageJson ''demo-app''))"
    "isDir fs' (join [''out''] ''src/stores'')"
    "fileAt fs' (join (join [''out''] ''src/stores'') ''.gitkeep'') = Some []"
    by fastforce+
  then show ?thesis using run by (simp add: join_def)
qed

subsection \<open>Copying a template directory\<close>




subsection \<open>Running the materializer twice\<close>

text \<open>
  C9. Two runs of the materializer with the same variables and the same template directory
  (or none), each on a target directory that exists and is empty, in file systems that may
  differ elsewhere: when the first run succeeds, so does the second, and the two target
  directories are the same tree, with the same paths and the same content at each path.
\<close>

theorem materializer_deterministic:
  assumes "wfPath targetPath"
    and "lookup fs1 targetPath = Some (Dir [])" and "lookup fs2 targetPath = Some (Dir [])"
    and "lookup fs1 templatesPath = lookup fs2 templatesPath"
    and "copyTemplates fixedText templatesPath targetPath variables fs1 = Inr fs1'"
  shows "\<exists>fs2'. copyTemplates fixedText templatesPath targetPath variables fs2 = Inr fs2'
               \<and> lookup fs2' targetPath = lookup fs1' targetPath"
  using assms by (rule copyTemplates_subtree)

theorem materializer_deterministic_witness:
  "\<exists>fs2'. copyTemplates id [''tpl''] [''out''] exampleVariables exampleTemplateFs2 = Inr fs2'
          \<and> lookup fs2' [''out''] = lookup exampleCopied [''out'']
          \<and> exampleTemplateFs2 \<noteq> exampleTemplateFs"
proof -
  have "wfPath [''out'']" by (simp add: wfPath_def plain_def)
  moreover have "lookup exampleTemplateFs [''out''] = Some (Dir [])"
    by (simp add: exampleTemplateFs_def)
  moreover have "lookup exampleTemplateFs2 [''out''] = Some (Dir [])"
    by (simp add: exampleTemplateFs2_def)
  moreover have "lookup exampleTemplateFs [''tpl''] = lookup exampleTemplateFs2 [''tpl'']"
    by (simp add: exampleTemplateFs_def exampleTemplateFs2_def)
  ultimately have
    "\<exists>fs2'. copyTemplates id [''tpl''] [''out''] exampleVariables exampleTemplateFs2 = Inr fs2'
            \<and> lookup fs2' [''out''] = lookup exampleCopied [''out'']"
    using example_copy [of id exampleVariables] by (rule materializer_deterministic)
  then show ?thesis by (simp add: exampleTemplateFs_def exampleTemplateFs2_def)
qed

subsection \<open>The substitution pass\<close>

text \<open>
  C3, as amended. When neither of the two paths is a directory, \<open>generateFiles\<close> succeeds;
  \<^verbatim>\<open>package.json\<close>, if it exists, is overwritten with its content, read as UTF-8 text, in
  which the project-name token is replaced, and \<^verbatim>\<open>README.md\<close>, if it exists, with its
  content, read as UTF-8 text, in which first the project-name token and then the
  package-manager token is replaced; no other file changes. Under two conditions every
  occurrence of a token becomes the value: the content of the file is well-formed UTF-8 (other
  bytes are not kept by the reading), and the value has no dollar sign (JavaScript expands
  the dollar patterns of a replacement, and a project name given on the command line is not
  checked). Then, for \<^verbatim>\<open>package.json\<close> made of segments with the project-name token between
  each two (no further occurrence of the token beginning inside a segment), the file
  becomes the segments with the project name between each two; and for \<^verbatim>\<open>README.md\<close> the
  same holds for the project-name token and then, on the text so obtained, for the
  package-manager token. Every text is made of such segments, for either token.
\<close>

theorem substitution_pass:
  assumes "\<not> isDir fs (join projectPath ''package.json'')"
    and "\<not> isDir fs (join projectPath ''README.md'')"
  shows "\<exists>fs'. generateFiles projectPath variables fs = Inr fs'
           \<and> fileAt fs' (join projectPath ''package.json'')
               = map_option (\<lambda>c. replaceAll projectNameToken (projectName variables) (utf8Text c))
                   (fileAt fs (join projectPath ''package.json''))
           \<and> fileAt fs' (join projectPath ''README.md'')
               = map_option (\<lambda>c. replaceAll packageManagerToken (packageManager variables)
                                    (replaceAll projectNameToken (projectName variables) (utf8Text c)))
                   (fileAt fs (join projectPath ''README.md''))
           \<and> (\<forall>q. q \<noteq> join projectPath ''package.json'' \<longrightarrow>
                    q \<noteq> join projectPath ''README.md'' \<longrightarrow> fileAt fs' q = fileAt fs q)
           \<and> (\<forall>segs.
                 fileAt fs (join projectPath ''package.json'') = Some (joinWith projectNameToken segs) \<longrightarrow>
                 validUtf8 (joinWith projectNameToken segs) \<longrightarrow>
                 list_all (\<lambda>seg. \<not> str_includes (seg @ butlast projectNameToken) projectNameToken) segs \<longrightarrow>
                 CHR ''$'' \<notin> set (projectName variables) \<longrightarrow>
                 fileAt fs' (join projectPath ''package.json'')
                   = Some (joinWith (projectName variables) segs))
           \<and> (\<forall>segs segs'.
                 fileAt fs (join projectPath ''README.md'') = Some (joinWith projectNameToken segs) \<longrightarrow>
                 validUtf8 (joinWith projectNameToken segs) \<longrightarrow>
                 list_all (\<lambda>seg. \<not> str_includes (seg @ butlast projectNameToken) projectNameToken) segs \<longrightarrow>
                 CHR ''$'' \<notin> set (projectName variables) \<longrightarrow>
                 joinWith (projectName variables) segs = joinWith packageManagerToken segs' \<longrightarrow>
                 list_all (\<lambda>seg. \<not> str_includes (seg @ butlast packageManagerToken) packageManagerToken)
                   segs' \<longrightarrow>
                 CHR ''$'' \<notin> set (packageManager variables) \<longrightarrow>
                 fileAt fs' (join projectPath ''README.md'')
                   = Some (joinWith (packageManager variables) segs'))
           \<and> (\<forall>c. \<exists>segs. c = joinWith projectNameToken segs
                 \<and> list_all (\<lambda>seg. \<not> str_includes (seg @ butlast projectNameToken) projectNameToken) segs)
           \<and> (\<forall>c. \<exists>segs. c = joinWith packageManagerToken segs
                 \<and> list_all (\<lambda>seg. \<not> str_includes (seg @ butlast packageManagerToken) packageManagerToken)
                      segs)"
proof -
  let ?pj = "join projectPath ''package.json''" and ?rd = "join projectPath ''README.md''"
  let ?name = "projectName variables" and ?pm = "packageManager variables"
  from generateFiles_result [OF assms, of variables] obtain fs' where
    run: "generateFiles projectPath variables fs = Inr fs'" and
    pj: "fileAt fs' ?pj
           = map_option (\<lambda>c. replaceAll projectNameToken ?name (utf8Text c)) (fileAt fs ?pj)" and
    rd: "fileAt fs' ?rd
           = map_option (\<lambda>c. replaceAll packageManagerToken ?pm
                                (replaceAll projectNameToken ?name (utf8Text c))) (fileAt fs ?rd)" and
    other: "\<forall>q. q \<noteq> ?pj \<longrightarrow> q \<noteq> ?rd \<longrightarrow> fileAt fs' q = fileAt fs q"
    by (auto simp: substitutePackageJson_def substituteReadme_def)
  have t1: "projectNameToken \<noteq> []" and t2: "packageManagerToken \<noteq> []"
    by (simp_all add: projectNameToken_def packageManagerToken_def)
  have every1: "fileAt fs' ?pj = Some (joinWith ?name segs)"
    if "fileAt fs ?pj = Some (joinWith projectNameToken segs)"
      and "validUtf8 (joinWith projectNameToken segs)"
      and "list_all (\<lambda>seg. \<not> str_includes (seg @ butlast projectNameToken) projectNameToken) segs"
      and "CHR ''$'' \<notin> set ?name" for segs
    using that pj by (simp add: utf8Text_valid replaceAll_joinWith [OF t1])
  have every2: "fileAt fs' ?rd = Some (joinWith ?pm segs')"
    if "fileAt fs ?rd = Some (joinWith projectNameToken segs)"
      and "validUtf8 (joinWith projectNameToken segs)"
      and "list_all (\<lambda>seg. \<not> str_includes (seg @ butlast projectNameToken) projectNameToken) segs"
      and "CHR ''$'' \<notin> set ?name"
      and "joinWith ?name segs = joinWith packageManagerToken segs'"
      and "list_all (\<lambda>seg. \<not> str_includes (seg @ butlast packageManagerToken) packageManagerToken) segs'"
      and "CHR ''$'' \<notin> set ?pm" for segs segs'
    using that rd
    by (simp add: utf8Text_valid replaceAll_joinWith [OF t1] replaceAll_joinWith [OF t2])
  have all1: "\<forall>c. \<exists>segs. c = joinWith projectNameToken segs
                \<and> list_all (\<lambda>seg. \<not> str_includes (seg @ butlast projectNameToken) projectNameToken) segs"
    using token_segments [OF t1 tokens_borderFree(1)] by blast
  have all2: "\<forall>c. \<exists>segs. c = joinWith packageManagerToken segs
                \<and> list_all (\<lambda>seg. \<not> str_includes (seg @ butlast packageManagerToken) packageManagerToken)
                     segs"
    using token_segments [OF t2 tokens_borderFree(2)] by blast
  from every1 have e1: "\<forall>segs.
      fileAt fs ?pj = Some (joinWith projectNameToken segs) \<longrightarrow>
      validUtf8 (joinWith projectNameToken segs) \<longrightarrow>
      list_all (\<lambda>seg. \<not> str_includes (seg @ butlast projectNameToken) projectNameToken) segs \<longrightarrow>
      CHR ''$'' \<notin> set ?name \<longrightarrow>
      fileAt fs' ?pj = Some (joinWith ?name segs)"
    by blast
  from every2 have e2: "\<forall>segs segs'.
      fileAt fs ?rd = Some (joinWith projectNameToken segs) \<longrightarrow>
      validUtf8 (joinWith projectNameToken segs) \<longrightarrow>
      list_all (\<lambda>seg. \<not> str_includes (seg @ butlast projectNameToken) projectNameToken) segs \<longrightarrow>
      CHR ''$'' \<notin> set ?name \<longrightarrow>
      joinWith ?name segs = joinWith packageManagerToken segs' \<longrightarrow>
      list_all (\<lambda>seg. \<not> str_includes (seg @ butlast packageManagerToken) packageManagerToken) segs' \<longrightarrow>
      CHR ''$'' \<notin> set ?pm \<longrightarrow>
      fileAt fs' ?rd = Some (joinWith ?pm segs')"
    by blast
  show ?thesis
    apply (rule exI [of _ fs'])
    using run pj rd other e1 e2 all1 all2 by (intro conjI)
qed

theorem substitution_pass_witness:
  \<open>\<exists>fs'. generateFiles [''out''] exampleVariables exampleCopied = Inr fs'
         \<and> fileAt fs' [''out'', ''package.json'']
             = Some ''{ "name": "demo-app", "packageManager": "{{packageManager}}" }''
         \<and> fileAt fs' [''out'', ''README.md''] = Some ''# demo-app: pnpm install, pnpm dev''
         \<and> fileAt fs' [''out'', ''src'', ''index.ts''] = Some ''export {}''\<close>
proof -
  let ?segs1 = \<open>[''{ "name": "'', ''", "packageManager": "{{packageManager}}" }'']\<close>
  let ?segs2 = "[''# '', '': {{packageManager}} install, {{packageManager}} dev'']"
  let ?segs3 = "[''# demo-app: '', '' install, '', '' dev'']"
  have a: "\<not> isDir exampleCopied (join [''out''] ''package.json'')"
    and b: "\<not> isDir exampleCopied (join [''out''] ''README.md'')"
    by (simp_all add: join_def exampleCopied_def)
  from substitution_pass [OF a b, of exampleVariables] obtain fs' where
    run: "generateFiles [''out''] exampleVariables exampleCopied = Inr fs'" and
    other: "\<And>q. q \<noteq> join [''out''] ''package.json'' \<Longrightarrow> q \<noteq> join [''out''] ''README.md'' \<Longrightarrow>
              fileAt fs' q = fileAt exampleCopied q" and
    every1: "\<And>segs.
       fileAt exampleCopied (join [''out''] ''package.json'') = Some (joinWith projectNameToken segs) \<Longrightarrow>
       validUtf8 (joinWith projectNameToken segs) \<Longrightarrow>
       list_all (\<lambda>seg. \<not> str_includes (seg @ butlast projectNameToken) projectNameToken) segs \<Longrightarrow>
       CHR ''$'' \<notin> set (projectName exampleVariables) \<Longrightarrow>
       fileAt fs' (join [''out''] ''package.json'')
         = Some (joinWith (projectName exampleVariables) segs)" and
    every2: "\<And>segs segs'.
       fileAt exampleCopied (join [''out''] ''README.md'') = Some (joinWith projectNameToken segs) \<Longrightarrow>
       validUtf8 (joinWith projectNameToken segs) \<Longrightarrow>
       list_all (\<lambda>seg. \<not> str_includes (seg @ butlast projectNameToken) projectNameToken) segs \<Longrightarrow>
       CHR ''$'' \<notin> set (projectName exampleVariables) \<Longrightarrow>
       joinWith (projectName exampleVariables) segs = joinWith packageManagerToken segs' \<Longrightarrow>
       list_all (\<lambda>seg. \<not> str_includes (seg @ butlast packageManagerToken) packageManagerToken) segs' \<Longrightarrow>
       CHR ''$'' \<notin> set (packageManager exampleVariables) \<Longrightarrow>
       fileAt fs' (join [''out''] ''README.md'')
         = Some (joinWith (packageManager exampleVariables) segs')"
    by blast
  have "fileAt fs' [''out'', ''src'', ''index.ts''] = Some ''export {}''"
    using other [of "[''out'', ''src'', ''index.ts'']"]
    by (simp add: join_def exampleCopied_def)
  moreover have "fileAt fs' (join [''out''] ''package.json'')
                   = Some (joinWith (projectName exampleVariables) ?segs1)"
    by (rule every1)
       (simp_all add: join_def exampleCopied_def exampleVariables_def projectNameToken_def
          inRange_def)
  moreover have "fileAt fs' (join [''out''] ''README.md'')
                   = Some (joinWith (packageManager exampleVariables) ?segs3)"
    by (rule every2 [of ?segs2])
       (simp_all add: join_def exampleCopied_def exampleVariables_def projectNameToken_def
          packageManagerToken_def inRange_def)
  ultimately show ?thesis
    using run by (simp add: join_def exampleVariables_def)
qed

text \<open>
  C3 as it is stated fails on \<^verbatim>\<open>package.json\<close>: the package-manager token is still in the
  file after the pass.
\<close>

theorem substitution_pass_counterexample:
  \<open>generateFiles [''out''] exampleVariables exampleCopied = Inr exampleSubstituted
   \<and> fileAt exampleSubstituted [''out'', ''package.json'']
       = Some ''{ "name": "demo-app", "packageManager": "{{packageManager}}" }''
   \<and> str_includes ''{ "name": "demo-app", "packageManager": "{{packageManager}}" }''
        packageManagerToken\<close>
  using example_substitution
  by (simp add: exampleSubstituted_def packageManagerToken_def)

subsection \<open>Declining to overwrite\<close>

text \<open>
  C7. When the prompts are not skipped, the project directory already exists and the user
  answers no to overwriting it, the run ends at once: the file system is exactly as before,
  nothing but the banner and the cancellation message is printed, and the exit code is 0.
\<close>

theorem decline_leaves_everything:
  assumes "\<not> yes options"
    and "existsSync fs (projectPathOf env (chosenOptions env projectNameArg options))"
    and "\<not> answerOverwrite env"
  shows "action env fixedText projectNameArg options fs
           = Completed fs [ConsoleLog ''Next.js Scaffold Generator'', ConsoleLog ''Cancelled.'']
       \<and> exitCode (action env fixedText projectNameArg options fs) = 0"
  using assms
  by (simp add: action_def createProject_def declined_def chosenOptions_def projectPathOf_def)

theorem decline_leaves_everything_witness:
  "action exampleEnv id None interactive exampleExisting
     = Completed exampleExisting [ConsoleLog ''Next.js Scaffold Generator'', ConsoleLog ''Cancelled.'']
   \<and> exitCode (action exampleEnv id None interactive exampleExisting) = 0
   \<and> fileAt exampleExisting [''home'', ''demo-app'', ''notes.txt''] = Some ''mine''"
proof -
  have "\<not> yes interactive" by (simp add: interactive_def)
  moreover have "existsSync exampleExisting
                   (projectPathOf exampleEnv (chosenOptions exampleEnv None interactive))"
    by (simp add: existsSync_def exampleExisting_def projectPathOf_def chosenOptions_def
          interactive_def exampleEnv_def truthy_def trim_def isWhiteSpace_def join_def)
  moreover have "\<not> answerOverwrite exampleEnv" by (simp add: exampleEnv_def)
  ultimately show ?thesis
    using decline_leaves_everything [of interactive exampleExisting exampleEnv None id]
    by (simp add: exampleExisting_def)
qed

subsection \<open>A failing installation\<close>

text \<open>
  C8. In a run that installs (the prompts are not skipped), when materialization and
  substitution succeed and the installer fails, the run still completes: after the failure
  message the install command is printed for the user to run, the next steps follow, and the
  exit code is 0.
\<close>

theorem install_failure_is_warning:
  assumes "opts = chosenOptions env projectNameArg cli" and "\<not> yes cli"
    and "\<not> declined env opts fs"
    and "scaffold env fixedText opts (fst (removeExisting env opts fs)) = Inr fs2"
    and "runInstaller env (packageManager opts) (projectPathOf env opts) fs2 = (False, fs3)"
  shows "action env fixedText projectNameArg cli fs
           = Completed fs3
               (ConsoleLog ''Next.js Scaffold Generator''
                # snd (removeExisting env opts fs)
                @ [SpinnerStart ''Creating project structure...'',
                   SpinnerSucceed ''Project structure created'',
                   SpinnerStart ''Generating files...'',
                   SpinnerSucceed ''Files generated'',
                   ConsoleLog ''Project created successfully!'',
                   SpinnerStart (''Installing dependencies with '' @ packageManager opts @ ''...''),
                   ExecSync (getInstallCommand (packageManager opts)) (projectPathOf env opts),
                   SpinnerFail ''Dependencies installation failed (you can install manually)'',
                   ConsoleLog (''  Run: '' @ interpolate (getInstallCommand (packageManager opts)))]
                @ nextSteps opts)
       \<and> exitCode (action env fixedText projectNameArg cli fs) = 0"
proof -
  have "autoInstall opts" using assms(1,2) by (simp add: chosenOptions_def)
  then show ?thesis
    using assms(1,3,4,5)
    by (auto simp: action_def createProject_def installDependencies_def split: prod.splits)
qed

theorem install_failure_is_warning_witness:
  "\<exists>fs3 events.
     action exampleEnv id None interactive exampleHome = Completed fs3 events
     \<and> exitCode (action exampleEnv id None interactive exampleHome) = 0
     \<and> SpinnerFail ''Dependencies installation failed (you can install manually)'' \<in> set events
     \<and> ConsoleLog ''  Run: pnpm install'' \<in> set events
     \<and> last events = ConsoleLog ''  pnpm dev''"
proof -
  let ?o = "chosenOptions exampleEnv None interactive"
  have new: "lookup exampleHome (projectPathOf exampleEnv ?o) = None"
    by (simp add: example_paths example_new_project)
  from scaffold_new_project [of exampleHome exampleEnv ?o _ id] obtain fs2 where
    s: "scaffold exampleEnv id ?o exampleHome = Inr fs2"
    by (auto simp: example_paths example_new_project)
  have nd: "\<not> declined exampleEnv ?o exampleHome"
    and re: "removeExisting exampleEnv ?o exampleHome = (exampleHome, [])"
    using new_project_not_declined [OF new] by simp_all
  have i: "runInstaller exampleEnv (packageManager ?o) (projectPathOf exampleEnv ?o) fs2 = (False, fs2)"
    by (simp add: runInstaller_def example_interactive getInstallCommand_def exampleEnv_def
          failingInstaller_def)
  have "\<not> yes interactive" by (simp add: interactive_def)
  from install_failure_is_warning [OF refl this nd _ i, of id] s re
  show ?thesis
    by (simp add: example_interactive nextSteps_def getInstallCommand_def getRunCommand_def
          interpolate_def)
qed

subsection \<open>Skipping the prompts\<close>

text \<open>
  C10. With \<^verbatim>\<open>--yes\<close> the options passed to \<open>createProject\<close> have \<open>autoInstall\<close> false: a
  completed run has started no subprocess, and the install command is printed among the
  next steps. Without \<^verbatim>\<open>--yes\<close> \<open>autoInstall\<close> is true, and a completed run that was not
  cancelled has started the installer exactly once.
\<close>

theorem yes_never_installs:
  assumes "opts = chosenOptions env projectNameArg cli"
    and "action env fixedText projectNameArg cli fs = Completed fs' events"
  shows "(yes cli \<longrightarrow>
            \<not> autoInstall opts \<and> filter isExec events = []
            \<and> ConsoleLog (''  '' @ interpolate (getInstallCommand (packageManager opts)))
                \<in> set events)
       \<and> (\<not> yes cli \<longrightarrow>
            autoInstall opts
            \<and> (\<not> declined env opts fs \<longrightarrow>
                 filter isExec events
                   = [ExecSync (getInstallCommand (packageManager opts)) (projectPathOf env opts)]))"
proof -
  let ?o = "chosenOptions env projectNameArg cli"
  from assms(2) obtain r where
    r: "createProject env fixedText ?o fs = Inr (fs', r)" and ev: "events = ConsoleLog ''Next.js Scaffold Generator'' # r"
    by (auto simp: action_def split: sum.splits)
  show ?thesis
  proof (cases "yes cli")
    case True
    then have o: "\<not> autoInstall ?o" "skipPrompts ?o"
      by (simp_all add: chosenOptions_def)
    then have "filter isExec r = []
               \<and> ConsoleLog (''  '' @ interpolate (getInstallCommand (packageManager ?o))) \<in> set r"
      using r
      by (auto simp: createProject_def declined_def no_exec_events nextSteps_def
            split: sum.splits prod.splits dest: removeExisting_no_exec)
    with True o ev show ?thesis unfolding assms(1) by simp
  next
    case False
    then have o: "autoInstall ?o" by (simp add: chosenOptions_def)
    have "filter isExec r
            = [ExecSync (getInstallCommand (packageManager ?o)) (projectPathOf env ?o)]"
      if "\<not> declined env ?o fs"
      using r that o
      by (auto simp: createProject_def installDependencies_def no_exec_events
            split: sum.splits prod.splits dest: removeExisting_no_exec)
    with False o ev show ?thesis unfolding assms(1) by simp
  qed
qed

theorem yes_never_installs_witness:
  "\<exists>fs' events.
     action exampleEnv id None acceptDefaults exampleHome = Completed fs' events
     \<and> yes acceptDefaults
     \<and> \<not> autoInstall (chosenOptions exampleEnv None acceptDefaults)
     \<and> filter isExec events = []
     \<and> ConsoleLog ''  npm install'' \<in> set events"
proof -
  from action_new_project [of exampleHome exampleEnv None acceptDefaults _ id]
  obtain fs' events where
    run: "action exampleEnv id None acceptDefaults exampleHome = Completed fs' events"
    by (auto simp: example_paths example_new_project)
  have y: "yes acceptDefaults" by (simp add: acceptDefaults_def)
  from yes_never_installs [OF refl run] y show ?thesis
    using run by (simp add: example_defaults getInstallCommand_def interpolate_def)
qed

subsection \<open>An unrecognized package manager\<close>

text \<open>
  C1, as amended. A package manager given with the flag is used as it is, also when it is
  none of the four: nothing checks it. On a project directory that does not exist yet, with
  no template directory, the run completes with exit code 0 and has written the project;
  \<open>getProjectStructure\<close> takes its last branch for every value other than \<open>npm\<close>, \<open>pnpm\<close> and
  \<open>yarn\<close>, so the readme names the \<open>bun\<close> commands, while \<open>getInstallCommand\<close> and
  \<open>getRunCommand\<close> return \<^verbatim>\<open>undefined\<close> for such a value. The readme of the project is the
  one of the manifest with the \<open>bun\<close> commands, read as UTF-8 text by the substitution pass
  and substituted: for a project name that is well-formed UTF-8, as every string of the
  program is, the substituted readme of the manifest itself.
\<close>

theorem unrecognized_package_manager_accepted:
  assumes "packageManagerFlag cli = Some pm" and "pm \<noteq> []"
    and "pm \<notin> set supportedPackageManagers"
    and "opts = chosenOptions env projectNameArg cli"
    and "lookup fs (projectPathOf env opts) = None"
    and "ensureDirSync (projectPathOf env opts) fs = Inr fs1"
    and "lookup fs1 (templatesPathOf env) = None"
  shows "packageManager opts = pm
       \<and> manifestInstallCmd pm = ''bun install'' \<and> manifestDevCmd pm = ''bun run dev''
       \<and> getInstallCommand pm = None \<and> getRunCommand pm ''dev'' = None
       \<and> (\<exists>fs' events.
             action env fixedText projectNameArg cli fs = Completed fs' events
             \<and> exitCode (action env fixedText projectNameArg cli fs) = 0
             \<and> fileAt fs' (join (projectPathOf env opts) ''README.md'')
                 = Some (substituteReadme (variablesOf opts)
                     (utf8Text (readme (projectName opts) ''bun install'' ''bun run dev'')))
             \<and> (validUtf8 (projectName opts) \<longrightarrow>
                  fileAt fs' (join (projectPathOf env opts) ''README.md'')
                    = Some (substituteReadme (variablesOf opts)
                        (readme (projectName opts) ''bun install'' ''bun run dev''))))"
proof -
  have "utf8Text (readme (projectName opts) ''bun install'' ''bun run dev'')
          = readme (projectName opts) ''bun install'' ''bun run dev''"
    if "validUtf8 (projectName opts)"
    by (rule utf8Text_valid, rule validUtf8_readme [OF that]) (simp_all add: inRange_def)
  then show ?thesis
    using unrecognized_run(1) [OF assms] unrecognized_run(2) [OF assms, of fixedText]
      manifest_commands_fallback [OF assms(3)]
    by auto
qed

theorem unrecognized_package_manager_accepted_witness:
  "\<exists>fs' events.
     action exampleEnv id (Some ''app'') exampleBadFlag exampleHome = Completed fs' events
     \<and> packageManager (chosenOptions exampleEnv (Some ''app'') exampleBadFlag) = ''pip''
     \<and> ''pip'' \<notin> set supportedPackageManagers
     \<and> fileAt fs' [''home'', ''app'', ''README.md''] = Some (readme ''app'' ''bun install'' ''bun run dev'')"
proof -
  have un: "''pip'' \<notin> set supportedPackageManagers" by (simp add: supportedPackageManagers_def)
  have ne: "''pip'' \<noteq> []" by simp
  have name: "validUtf8 (projectName (chosenOptions exampleEnv (Some ''app'') exampleBadFlag))"
    by (simp add: example_bad_flag(1) inRange_def)
  from unrecognized_package_manager_accepted
         [OF example_bad_flag_run(1) ne un refl example_bad_flag_run(2,3,4), of id]
  obtain fs' events where
    "action exampleEnv id (Some ''app'') exampleBadFlag exampleHome = Completed fs' events"
    "packageManager (chosenOptions exampleEnv (Some ''app'') exampleBadFlag) = ''pip''"
    "validUtf8 (projectName (chosenOptions exampleEnv (Some ''app'') exampleBadFlag)) \<longrightarrow>
     fileAt fs' (join (projectPathOf exampleEnv (chosenOptions exampleEnv (Some ''app'') exampleBadFlag))
                   ''README.md'')
       = Some (substituteReadme (variablesOf (chosenOptions exampleEnv (Some ''app'') exampleBadFlag))
                 (readme (projectName (chosenOptions exampleEnv (Some ''app'') exampleBadFlag))
                    ''bun install'' ''bun run dev''))"
    by blast
  with name show ?thesis
    using un unfolding example_bad_flag(2) by (simp add: example_bad_flag(1) example_bad_readme join_def)
qed

text \<open>
  C1 as it is stated fails: with the flag value \<open>pip\<close> no error is raised, the exit code is 0,
  and the project has been written, its readme naming the \<open>bun\<close> commands.
\<close>

theorem unrecognized_package_manager_counterexample:
  "''pip'' \<notin> set supportedPackageManagers
   \<and> packageManagerFlag exampleBadFlag = Some ''pip''
   \<and> exitCode (action exampleEnv id (Some ''app'') exampleBadFlag exampleHome) = 0
   \<and> fileAt exampleHome [''home'', ''app'', ''README.md''] = None
   \<and> fileAfter (action exampleEnv id (Some ''app'') exampleBadFlag exampleHome)
        [''home'', ''app'', ''README.md'']
       = Some (readme ''app'' ''bun install'' ''bun run dev'')
   \<and> manifestInstallCmd ''pip'' = ''bun install''"
proof -
  have un: "''pip'' \<notin> set supportedPackageManagers" by (simp add: supportedPackageManagers_def)
  have ne: "''pip'' \<noteq> []" by simp
  from unrecognized_run(2)
         [OF example_bad_flag_run(1) ne un refl example_bad_flag_run(2,3,4), of id]
  obtain fs' events where
    run: "action exampleEnv id (Some ''app'') exampleBadFlag exampleHome = Completed fs' events" and
    "fileAt fs' (join (projectPathOf exampleEnv (chosenOptions exampleEnv (Some ''app'') exampleBadFlag))
                   ''README.md'')
       = Some (substituteReadme (variablesOf (chosenOptions exampleEnv (Some ''app'') exampleBadFlag))
                 (utf8Text (readme (projectName (chosenOptions exampleEnv (Some ''app'') exampleBadFlag))
                    ''bun install'' ''bun run dev'')))"
    by blast
  then have "fileAt fs' [''home'', ''app'', ''README.md'']
               = Some (readme ''app'' ''bun install'' ''bun run dev'')"
    unfolding example_bad_flag(2) by (simp add: example_bad_flag(1) example_bad_readme join_def)
  with run show ?thesis
    using un manifest_commands_fallback(1) [OF un] example_bad_flag_run(1)
    by (simp add: fileAfter_def exampleHome_def)
qed

subsection \<open>What the manifest holds\<close>

text \<open>
  C6. For a project name of letters, digits and hyphens and one of the four package
  managers, the manifest's \<^verbatim>\<open>package.json\<close> begins with the name member holding the project
  name, and its \<^verbatim>\<open>README.md\<close> contains the install command and the run command for \<open>dev\<close> that
  \<open>getInstallCommand\<close> and \<open>getRunCommand\<close> give. After materialization from the manifest and
  the substitution pass the two files are in the target directory with this content, and
  each directory of \<open>emptyDirs\<close> (among them \<^verbatim>\<open>src/shared/constants\<close>, \<^verbatim>\<open>src/stores\<close> and
  \<^verbatim>\<open>src/tests/e2e\<close>) exists and holds an empty \<^verbatim>\<open>.gitkeep\<close>.
\<close>

theorem manifest_embeds_name_and_commands:
  assumes "matchesNamePattern (projectName variables)"
    and "packageManager variables \<in> set supportedPackageManagers"
  shows \<open>\<exists>pkg rd ic rc.
           getInstallCommand (packageManager variables) = Some ic
         \<and> getRunCommand (packageManager variables) ''dev'' = Some rc
         \<and> manifestContent fixedText variables ''package.json'' = Some pkg
         \<and> manifestContent fixedText variables ''README.md'' = Some rd
         \<and> prefix (''{'' @ [CHR 0x0A] @ ''  "name": "'' @ projectName variables @ ''",'') pkg
         \<and> str_includes rd ic \<and> str_includes rd rc
         \<and> (\<forall>t fs fs1 fs2.
               createProjectStructure fixedText t variables fs = Inr fs1 \<longrightarrow>
               generateFiles t variables fs1 = Inr fs2 \<longrightarrow>
               fileAt fs2 (join t ''package.json'') = Some pkg
               \<and> fileAt fs2 (join t ''README.md'') = Some rd
               \<and> (\<forall>d \<in> set emptyDirs.
                     isDir fs2 (join t d)
                     \<and> fileAt fs2 (join (join t d) ''.gitkeep'') = Some []))\<close>
proof -
  from assms(1) have chars: "list_all (\<lambda>c. c \<in> set nameChars) (projectName variables)"
    by (simp add: matchesNamePattern_def)
  let ?pkg = "stringify (packageJson (projectName variables))"
  let ?ic = "manifestInstallCmd (packageManager variables)"
  let ?rc = "manifestDevCmd (packageManager variables)"
  let ?rd = "readme (projectName variables) ?ic ?rc"
  have "getInstallCommand (packageManager variables) = Some ?ic"
    and "getRunCommand (packageManager variables) ''dev'' = Some ?rc"
    by (rule manifest_commands_supported [OF assms(2)])+
  moreover have "manifestContent fixedText variables ''package.json'' = Some ?pkg"
    and "manifestContent fixedText variables ''README.md'' = Some ?rd"
    by (rule manifestContent_two)+
  moreover have
    \<open>prefix (''{'' @ [CHR 0x0A] @ ''  "name": "'' @ projectName variables @ ''",'') ?pkg\<close>
    by (rule packageJson_name_field [OF chars])
  moreover have "str_includes ?rd ?ic" and "str_includes ?rd ?rc"
    by (rule readme_includes)+
  moreover have "\<forall>t fs fs1 fs2.
       createProjectStructure fixedText t variables fs = Inr fs1 \<longrightarrow>
       generateFiles t variables fs1 = Inr fs2 \<longrightarrow>
       fileAt fs2 (join t ''package.json'') = Some ?pkg
       \<and> fileAt fs2 (join t ''README.md'') = Some ?rd
       \<and> (\<forall>d \<in> set emptyDirs.
             isDir fs2 (join t d) \<and> fileAt fs2 (join (join t d) ''.gitkeep'') = Some [])"
    using valid_manifest_tree [OF assms] by blast
  ultimately show ?thesis by blast
qed

theorem manifest_embeds_name_and_commands_witness:
  \<open>\<exists>fs2 pkg rd.
     scaffold exampleEnv id (chosenOptions exampleEnv None interactive) exampleHome = Inr fs2
     \<and> fileAt fs2 [''home'', ''demo-app'', ''package.json''] = Some pkg
     \<and> prefix (''{'' @ [CHR 0x0A] @ ''  "name": "demo-app",'') pkg
     \<and> fileAt fs2 [''home'', ''demo-app'', ''README.md''] = Some rd
     \<and> str_includes rd ''pnpm install'' \<and> str_includes rd ''pnpm dev''
     \<and> fileAt fs2 [''home'', ''demo-app'', ''src'', ''shared'', ''constants'', ''.gitkeep''] = Some []
     \<and> fileAt fs2 [''home'', ''demo-app'', ''src'', ''stores'', ''.gitkeep''] = Some []
     \<and> fileAt fs2 [''home'', ''demo-app'', ''src'', ''tests'', ''e2e'', ''.gitkeep''] = Some []\<close>
proof -
  let ?o = "chosenOptions exampleEnv None interactive"
  have v: "variablesOf ?o = exampleVariables"
    by (simp add: example_interactive variablesOf_def exampleVariables_def)
  have p: "projectPathOf exampleEnv ?o = [''home'', ''demo-app'']" by (rule example_paths(1))
  from scaffold_new_project [of exampleHome exampleEnv ?o _ id] obtain fs1' fs2 where
    c: "createProjectStructure id [''home'', ''demo-app''] exampleVariables
          (Dir [(''home'', Dir [(''demo-app'', Dir [])])]) = Inr fs1'" and
    g: "generateFiles [''home'', ''demo-app''] exampleVariables fs1' = Inr fs2" and
    s: "scaffold exampleEnv id ?o exampleHome = Inr fs2"
    unfolding p v example_paths(3) using example_new_project(1,2,3) by auto
  have name: "matchesNamePattern (projectName exampleVariables)"
    by (simp add: exampleVariables_def matchesNamePattern_def nameChars_def)
  have pm: "packageManager exampleVariables \<in> set supportedPackageManagers"
    by (simp add: exampleVariables_def supportedPackageManagers_def)
  from manifest_embeds_name_and_commands [OF name pm, of id] obtain pkg rd ic rc where
    ic: "getInstallCommand (packageManager exampleVariables) = Some ic" and
    rc: "getRunCommand (packageManager exampleVariables) ''dev'' = Some rc" and
    pre: \<open>prefix (''{'' @ [CHR 0x0A] @ ''  "name": "'' @ projectName exampleVariables @ ''",'') pkg\<close> and
    inc: "str_includes rd ic" "str_includes rd rc" and
    tree: "\<And>t fs fs1 fs2.
             createProjectStructure id t exampleVariables fs = Inr fs1 \<Longrightarrow>
             generateFiles t exampleVariables fs1 = Inr fs2 \<Longrightarrow>
             fileAt fs2 (join t ''package.json'') = Some pkg
             \<and> fileAt fs2 (join t ''README.md'') = Some rd
             \<and> (\<forall>d \<in> set emptyDirs.
                   isDir fs2 (join t d)
                   \<and> fileAt fs2 (join (join t d) ''.gitkeep'') = Some [])"
    by blast
  from ic rc have cmds: "ic = ''pnpm install''" "rc = ''pnpm dev''"
    by (simp_all add: exampleVariables_def getInstallCommand_def getRunCommand_def)
  have dirs: "''src/shared/constants'' \<in> set emptyDirs" "''src/stores'' \<in> set emptyDirs"
    "''src/tests/e2e'' \<in> set emptyDirs"
    by (simp_all add: emptyDirs_def)
  from tree [OF c g] dirs have
    "fileAt fs2 (join [''home'', ''demo-app''] ''package.json'') = Some pkg"
    "fileAt fs2 (join [''home'', ''demo-app''] ''README.md'') = Some rd"
    "fileAt fs2 (join (join [''home'', ''demo-app''] ''src/shared/constants'') ''.gitkeep'') = Some []"
    "fileAt fs2 (join (join [''home'', ''demo-app''] ''src/stores'') ''.gitkeep'') = Some []"
    "fileAt fs2 (join (join [''home'', ''demo-app''] ''src/tests/e2e'') ''.gitkeep'') = Some []"
    by blast+
  then show ?thesis
    using s pre inc cmds by (auto simp: join_def exampleVariables_def)
qed

end
